theory Spec2Isabelle
  imports Main "HOL-Library.Word" "HOL-Library.AList"
begin

section \<open>JavaScript values\<close>

text \<open>
  A JavaScript string is a sequence of 16-bit code units; \<open>length\<close>, \<open>trim\<close>,
  \<open>substring\<close> and the regular expressions of the source all count code units.
\<close>

type_synonym jsstring = "16 word list"

definition ascii :: "string \<Rightarrow> jsstring" where
  "ascii s = map (\<lambda>c. of_nat (of_char c)) s"

text \<open>
  The values a handler can receive in a payload field. Numbers are kept at the integers:
  the handlers only look at the type of a number and at whether it is zero.
\<close>

datatype jsval =
    JUndefined
  | JNull
  | JBool bool
  | JNum int
  | JStr jsstring
  | JArr "jsval list"
  | JObj "(string \<times> jsval) list"

fun truthy :: "jsval \<Rightarrow> bool" where
  "truthy JUndefined = False"
| "truthy JNull = False"
| "truthy (JBool b) = b"
| "truthy (JNum n) = (n \<noteq> 0)"
| "truthy (JStr s) = (s \<noteq> [])"
| "truthy (JArr _) = True"
| "truthy (JObj _) = True"

section \<open>utils/roomManager.js\<close>

definition USER_COLORS :: "jsstring list" where
  "USER_COLORS =
    [ascii ''#FF6B6B'', ascii ''#4ECDC4'', ascii ''#45B7D1'', ascii ''#FFA07A'',
     ascii ''#98D8C8'', ascii ''#F7DC6F'', ascii ''#BB8FCE'', ascii ''#85C1E2'',
     ascii ''#F8B739'', ascii ''#52B788'', ascii ''#E76F51'', ascii ''#2A9D8F'']"

definition getUserColor :: "nat \<Rightarrow> jsstring" where
  "getUserColor index = USER_COLORS ! (index mod length USER_COLORS)"

text \<open>The character class \<open>[a-zA-Z0-9-_]\<close> of the room id pattern.\<close>

definition roomIdChar :: "16 word \<Rightarrow> bool" where
  "roomIdChar c \<longleftrightarrow>
     (0x61 \<le> c \<and> c \<le> 0x7A) \<or> (0x41 \<le> c \<and> c \<le> 0x5A) \<or> (0x30 \<le> c \<and> c \<le> 0x39)
     \<or> c = 0x2D \<or> c = 0x5F"

text \<open>\<open>/^[a-zA-Z0-9-_]+$/.test(s)\<close>: one or more characters of the class, and nothing else.\<close>

definition roomIdPattern :: "jsstring \<Rightarrow> bool" where
  "roomIdPattern s \<longleftrightarrow> s \<noteq> [] \<and> list_all roomIdChar s"

fun isValidRoomId :: "jsval \<Rightarrow> bool" where
  "isValidRoomId (JStr roomId) =
     (length roomId > 0 \<and> length roomId < 100 \<and> roomIdPattern roomId)"
| "isValidRoomId _ = False"

text \<open>The decimal digits of a number, as the template literal prints \<open>Date.now()\<close>.\<close>

fun decimal :: "nat \<Rightarrow> jsstring" where
  "decimal n = (if n < 10 then [0x30 + of_nat n] else decimal (n div 10) @ [0x30 + of_nat (n mod 10)])"

declare decimal.simps [simp del]

definition guestName :: "nat \<Rightarrow> jsstring" where
  "guestName now = ascii ''Guest-'' @ decimal now"

text \<open>
  What \<open>String.prototype.trim\<close> removes: the white space and line terminator code units
  of ECMAScript.
\<close>

definition isWhiteSpace :: "16 word \<Rightarrow> bool" where
  "isWhiteSpace c \<longleftrightarrow>
     c \<in> {0x0009, 0x000A, 0x000B, 0x000C, 0x000D, 0x0020, 0x00A0, 0x1680,
          0x2000, 0x2001, 0x2002, 0x2003, 0x2004, 0x2005, 0x2006, 0x2007, 0x2008, 0x2009, 0x200A,
          0x2028, 0x2029, 0x202F, 0x205F, 0x3000, 0xFEFF}"

definition trim :: "jsstring \<Rightarrow> jsstring" where
  "trim s = rev (dropWhile isWhiteSpace (rev (dropWhile isWhiteSpace s)))"

text \<open>\<open>.replace(/[<>]/g, '')\<close>\<close>

definition stripAngles :: "jsstring \<Rightarrow> jsstring" where
  "stripAngles s = filter (\<lambda>c. c \<noteq> 0x3C \<and> c \<noteq> 0x3E) s"

text \<open>
  \<open>sanitizeUsername\<close> reads the clock (\<open>Date.now()\<close>) for the guest name; the reading is
  the first argument.
\<close>

fun sanitizeUsername :: "nat \<Rightarrow> jsval \<Rightarrow> jsstring" where
  "sanitizeUsername now (JStr username) =
     (if username = [] then guestName now
      else let sanitized = take 50 (trim (stripAngles username))
           in if sanitized \<noteq> [] then sanitized else guestName now)"
| "sanitizeUsername now _ = guestName now"

section \<open>The shared registry and the socket.io rooms\<close>

text \<open>
  The object stored for a member (the field \<open>id\<close> of the source is \<open>id_sock\<close> here),
  and the metadata of a room.
\<close>

record userData =
  id_sock :: jsstring
  username :: jsstring
  userId :: jsval
  color :: jsstring
  joinedAt :: jsstring

record metadata =
  createdAt :: jsstring
  createdBy :: jsstring

text \<open>
  A JavaScript \<open>Map\<close> keeps its keys in insertion order: it is an association list with
  distinct keys. \<open>Map.set\<close> is \<^const>\<open>AList.update\<close> (in place for a key that is there, at
  the end otherwise), \<open>Map.delete\<close> is \<^const>\<open>AList.delete\<close>, \<open>Map.get\<close> is
  \<^const>\<open>map_of\<close>. The keys of both registries are room ids that passed validation,
  so they are strings.

  \<open>socketRooms\<close> is the part of socket.io the handlers read and write: for every connected
  socket the set \<open>socket.rooms\<close>, in insertion order. A socket is in the room named by its
  own id as soon as it connects.
\<close>

record server =
  rooms :: "(jsstring \<times> (jsstring \<times> userData) list) list"
  roomMetadata :: "(jsstring \<times> metadata) list"
  socketRooms :: "jsstring \<rightharpoonup> jsstring list"

definition socket_rooms :: "server \<Rightarrow> jsstring \<Rightarrow> jsstring list" where
  "socket_rooms st sid = (case socketRooms st sid of None \<Rightarrow> [] | Some rs \<Rightarrow> rs)"

text \<open>\<open>socket.join(room)\<close> and \<open>socket.leave(room)\<close>; both do nothing for a socket that is gone.\<close>

definition socket_join :: "jsstring \<Rightarrow> jsstring \<Rightarrow> server \<Rightarrow> server" where
  "socket_join sid room st =
     (case socketRooms st sid of
        None \<Rightarrow> st
      | Some rs \<Rightarrow> st\<lparr>socketRooms := (socketRooms st)(sid \<mapsto> (if room \<in> set rs then rs else rs @ [room]))\<rparr>)"

definition socket_leave :: "jsstring \<Rightarrow> jsstring \<Rightarrow> server \<Rightarrow> server" where
  "socket_leave sid room st =
     (case socketRooms st sid of
        None \<Rightarrow> st
      | Some rs \<Rightarrow> st\<lparr>socketRooms := (socketRooms st)(sid \<mapsto> removeAll room rs)\<rparr>)"

text \<open>
  An outbound event: whom it is addressed to, its name and its payload.
  \<open>ToSocket s\<close> is \<open>socket.emit\<close> on socket \<open>s\<close>, \<open>ToOthers s room\<close> is
  \<open>socket.to(room).emit\<close> (the room without \<open>s\<close>), \<open>ToRoom room\<close> is \<open>io.to(room).emit\<close>.
\<close>

datatype target = ToSocket jsstring | ToOthers jsstring jsval | ToRoom jsval

datatype emission = Emit target string jsval

text \<open>
  The sockets an emission reaches, in the state in which it is sent, as socket.io 4
  delivers a broadcast. The target of \<open>to\<close> is one room, or an array of rooms; a room is
  looked up by its name, and every room a socket is in is named by a string, so that
  another value names no room. \<open>socket.to(...)\<close> excepts the room named by the id of the
  sending socket: every socket that is in that room is left out, the sender among them
  only while it is in it. An empty array of rooms addresses every connected socket.
\<close>

definition inRoom :: "server \<Rightarrow> jsstring \<Rightarrow> jsstring \<Rightarrow> bool" where
  "inRoom st room s \<longleftrightarrow> room \<in> set (socket_rooms st s)"

fun targetRooms :: "jsval \<Rightarrow> jsval list" where
  "targetRooms (JArr vs) = vs"
| "targetRooms v = [v]"

fun inRoomNamed :: "server \<Rightarrow> jsval \<Rightarrow> jsstring \<Rightarrow> bool" where
  "inRoomNamed st (JStr room) t = inRoom st room t"
| "inRoomNamed st _ t = False"

definition broadcast :: "server \<Rightarrow> jsval \<Rightarrow> jsstring list \<Rightarrow> jsstring \<Rightarrow> bool" where
  "broadcast st roomV except t \<longleftrightarrow>
     socketRooms st t \<noteq> None
     \<and> \<not> list_ex (\<lambda>x. inRoom st x t) except
     \<and> (targetRooms roomV = [] \<or> list_ex (\<lambda>v. inRoomNamed st v t) (targetRooms roomV))"

fun reaches :: "server \<Rightarrow> target \<Rightarrow> jsstring \<Rightarrow> bool" where
  "reaches st (ToSocket s) t = (t = s \<and> socketRooms st s \<noteq> None)"
| "reaches st (ToOthers s roomV) t = broadcast st roomV [s] t"
| "reaches st (ToRoom roomV) t = broadcast st roomV [] t"

definition userData_js :: "userData \<Rightarrow> jsval" where
  "userData_js u =
     JObj [(''id'', JStr (id_sock u)), (''username'', JStr (username u)), (''userId'', userId u),
           (''color'', JStr (color u)), (''joinedAt'', JStr (joinedAt u))]"

definition getRoomUsers ::
  "(jsstring \<times> (jsstring \<times> userData) list) list \<Rightarrow> jsstring \<Rightarrow> userData list" where
  "getRoomUsers rs roomId = (case map_of rs roomId of None \<Rightarrow> [] | Some room \<Rightarrow> map snd room)"

definition roomUsers_js :: "server \<Rightarrow> jsstring \<Rightarrow> jsval" where
  "roomUsers_js st roomId = JArr (map userData_js (getRoomUsers (rooms st) roomId))"

text \<open>\<open>cleanupEmptyRooms\<close>: the periodic sweep; it returns the ids it deleted.\<close>

definition cleanupEmptyRooms :: "server \<Rightarrow> jsstring list \<times> server" where
  "cleanupEmptyRooms st =
     fold (\<lambda>(roomId, users) (emptyRooms, s).
             if length users = 0
             then (emptyRooms @ [roomId],
                   s\<lparr>rooms := AList.delete roomId (rooms s),
                     roomMetadata := AList.delete roomId (roomMetadata s)\<rparr>)
             else (emptyRooms, s))
          (rooms st) ([], st)"

section \<open>utils/socketHandlers.js\<close>

text \<open>Running a handler over the elements of a collection, collecting what it emits.\<close>

fun forEach ::
  "('a \<Rightarrow> server \<Rightarrow> emission list \<times> server) \<Rightarrow> 'a list \<Rightarrow> server \<Rightarrow> emission list \<times> server" where
  "forEach f [] st = ([], st)"
| "forEach f (x # xs) st =
     (case f x st of (out1, st1) \<Rightarrow>
        (case forEach f xs st1 of (out2, st2) \<Rightarrow> (out1 @ out2, st2)))"

declare forEach.simps(2) [simp del]

definition handleUserLeaving :: "jsstring \<Rightarrow> jsval \<Rightarrow> server \<Rightarrow> emission list \<times> server" where
  "handleUserLeaving sid roomIdV st =
     (case roomIdV of
        JStr roomId \<Rightarrow>
          (case map_of (rooms st) roomId of
             None \<Rightarrow> ([], st)
           | Some room \<Rightarrow>
               (case map_of room sid of
                  None \<Rightarrow> ([], st)
                | Some user \<Rightarrow>
                    let room' = AList.delete sid room;
                        st1 = st\<lparr>rooms := AList.update roomId room' (rooms st)\<rparr>;
                        left = Emit (ToOthers sid roomIdV) ''user-left''
                                 (JObj [(''userId'', JStr sid), (''username'', JStr (username user))])
                    in if length room' > 0
                       then ([left, Emit (ToRoom roomIdV) ''room-users'' (roomUsers_js st1 roomId)],
                             socket_leave sid roomId st1)
                       else ([left],
                             socket_leave sid roomId
                               (st1\<lparr>rooms := AList.delete roomId (rooms st1),
                                    roomMetadata := AList.delete roomId (roomMetadata st1)\<rparr>))))
      | _ \<Rightarrow> ([], st))"

text \<open>
  The three readings of the clock a join makes: \<open>new Date().toISOString()\<close> for the
  metadata, \<open>Date.now()\<close> inside \<open>sanitizeUsername\<close>, \<open>new Date().toISOString()\<close> for
  \<open>joinedAt\<close>.
\<close>

record clock =
  isoCreated :: jsstring
  millis :: nat
  isoJoined :: jsstring

definition errorMessage :: "string \<Rightarrow> jsval" where
  "errorMessage m = JObj [(''message'', JStr (ascii m))]"

text \<open>
  \<open>Array.from(socket.rooms).forEach(room => ...)\<close>: leave every room but the socket's
  own. \<open>leaveOne\<close> is the callback.
\<close>

definition leaveOne :: "jsstring \<Rightarrow> jsstring \<Rightarrow> server \<Rightarrow> emission list \<times> server" where
  "leaveOne sid room st =
     (if room \<noteq> sid
      then handleUserLeaving sid (JStr room) (socket_leave sid room st)
      else ([], st))"

definition leaveExisting :: "jsstring \<Rightarrow> server \<Rightarrow> emission list \<times> server" where
  "leaveExisting sid st = forEach (leaveOne sid) (socket_rooms st sid) st"

text \<open>
  The \<open>join-room\<close> handler. Nothing between \<open>try\<close> and \<open>catch\<close> throws unless
  \<open>rooms.get(roomId)\<close> were undefined after the room was initialised; that is the
  \<open>None\<close> branch, which reports \<open>Failed to join room\<close> as the \<open>catch\<close> does. A room id
  that passed \<open>isValidRoomId\<close> is a string, so the last branch is never taken.
\<close>

definition join_room ::
  "clock \<Rightarrow> jsstring \<Rightarrow> jsval \<Rightarrow> jsval \<Rightarrow> jsval \<Rightarrow> server \<Rightarrow> emission list \<times> server" where
  "join_room clk sid roomIdV usernameV userIdV st =
     (if \<not> isValidRoomId roomIdV
      then ([Emit (ToSocket sid) ''error'' (errorMessage ''Invalid room ID'')], st)
      else (case roomIdV of
        JStr roomId \<Rightarrow>
          (case leaveExisting sid st of (out1, st1) \<Rightarrow>
             let st2 = socket_join sid roomId st1;
                 st3 = (if map_of (rooms st2) roomId = None
                        then st2\<lparr>rooms := AList.update roomId [] (rooms st2),
                                 roomMetadata := AList.update roomId
                                   \<lparr>createdAt = isoCreated clk, createdBy = sid\<rparr> (roomMetadata st2)\<rparr>
                        else st2)
             in (case map_of (rooms st3) roomId of
                  None \<Rightarrow> (out1 @ [Emit (ToSocket sid) ''error'' (errorMessage ''Failed to join room'')], st3)
                | Some room \<Rightarrow>
                    let colorIndex = length room;
                        userData = \<lparr>id_sock = sid,
                                    username = sanitizeUsername (millis clk) usernameV,
                                    userId = (if truthy userIdV then userIdV else JStr sid),
                                    color = getUserColor colorIndex,
                                    joinedAt = isoJoined clk\<rparr>;
                        room' = AList.update sid userData room;
                        st4 = st3\<lparr>rooms := AList.update roomId room' (rooms st3)\<rparr>
                    in (out1 @
                        [Emit (ToSocket sid) ''room-users'' (roomUsers_js st4 roomId),
                         Emit (ToOthers sid roomIdV) ''user-joined'' (userData_js userData),
                         Emit (ToRoom roomIdV) ''room-users'' (roomUsers_js st4 roomId),
                         Emit (ToSocket sid) ''join-success''
                           (JObj [(''roomId'', roomIdV), (''userData'', userData_js userData),
                                  (''userCount'', JNum (int (length room')))])],
                        st4)))
      | _ \<Rightarrow> ([], st)))"

text \<open>The relays: nothing is stored, the payload goes out as it came in.\<close>

definition yjs_update :: "jsstring \<Rightarrow> jsval \<Rightarrow> jsval \<Rightarrow> server \<Rightarrow> emission list \<times> server" where
  "yjs_update sid roomIdV upd st =
     ([Emit (ToOthers sid roomIdV) ''yjs-update'' (JObj [(''update'', upd), (''from'', JStr sid)])], st)"

definition awareness_update :: "jsstring \<Rightarrow> jsval \<Rightarrow> jsval \<Rightarrow> server \<Rightarrow> emission list \<times> server" where
  "awareness_update sid roomIdV upd st =
     ([Emit (ToOthers sid roomIdV) ''awareness-update'' (JObj [(''update'', upd), (''from'', JStr sid)])], st)"

text \<open>\<open>rooms.get(roomId)\<close> for a key of any type: only a string can be a key of the registry.\<close>

definition rooms_get :: "server \<Rightarrow> jsval \<Rightarrow> (jsstring \<times> userData) list option" where
  "rooms_get st roomIdV = (case roomIdV of JStr roomId \<Rightarrow> map_of (rooms st) roomId | _ \<Rightarrow> None)"

definition cursor_update :: "jsstring \<Rightarrow> jsval \<Rightarrow> jsval \<Rightarrow> server \<Rightarrow> emission list \<times> server" where
  "cursor_update sid roomIdV position st =
     (case rooms_get st roomIdV of
        None \<Rightarrow> ([], st)
      | Some room \<Rightarrow>
          (case map_of room sid of
             None \<Rightarrow> ([], st)
           | Some userData \<Rightarrow>
               ([Emit (ToOthers sid roomIdV) ''cursor-update''
                   (JObj [(''userId'', JStr sid), (''username'', JStr (username userData)),
                          (''color'', JStr (color userData)), (''position'', position)])], st)))"

definition typing :: "jsstring \<Rightarrow> jsval \<Rightarrow> jsval \<Rightarrow> server \<Rightarrow> emission list \<times> server" where
  "typing sid roomIdV isTyping st =
     (case rooms_get st roomIdV of
        None \<Rightarrow> ([], st)
      | Some room \<Rightarrow>
          (case map_of room sid of
             None \<Rightarrow> ([], st)
           | Some userData \<Rightarrow>
               ([Emit (ToOthers sid roomIdV) ''user-typing''
                   (JObj [(''userId'', JStr sid), (''username'', JStr (username userData)),
                          (''isTyping'', isTyping)])], st)))"

definition request_sync :: "jsstring \<Rightarrow> jsval \<Rightarrow> server \<Rightarrow> emission list \<times> server" where
  "request_sync sid roomIdV st =
     ([Emit (ToOthers sid roomIdV) ''sync-requested'' (JObj [(''from'', JStr sid)])], st)"

definition send_sync :: "jsstring \<Rightarrow> jsval \<Rightarrow> jsval \<Rightarrow> jsval \<Rightarrow> server \<Rightarrow> emission list \<times> server" where
  "send_sync sid to roomIdV state st =
     ([Emit (ToRoom to) ''receive-sync''
         (JObj [(''from'', JStr sid), (''roomId'', roomIdV), (''state'', state)])], st)"

definition leave_room :: "jsstring \<Rightarrow> jsval \<Rightarrow> server \<Rightarrow> emission list \<times> server" where
  "leave_room sid roomIdV st = handleUserLeaving sid roomIdV st"

text \<open>
  The \<open>disconnect\<close> handler: \<open>rooms.forEach\<close> visits the entries of the registry; an entry
  deleted before its turn is not visited. \<open>dropFrom\<close> is the callback.
\<close>

definition dropFrom :: "jsstring \<Rightarrow> jsstring \<Rightarrow> server \<Rightarrow> emission list \<times> server" where
  "dropFrom sid roomId st =
     (case map_of (rooms st) roomId of
        None \<Rightarrow> ([], st)
      | Some users \<Rightarrow>
          if map_of users sid \<noteq> None
          then handleUserLeaving sid (JStr roomId) st
          else ([], st))"

definition disconnect :: "jsstring \<Rightarrow> server \<Rightarrow> emission list \<times> server" where
  "disconnect sid st = forEach (dropFrom sid) (map fst (rooms st)) st"

section \<open>Events and runs of the server\<close>

text \<open>
  The inbound events of a socket, each with its payload as it arrives. The handlers
  destructure the payload in their parameter list: a field the payload does not have is
  \<open>undefined\<close>, and destructuring \<open>null\<close> or \<open>undefined\<close> throws a TypeError before the
  body of the handler runs.
\<close>

datatype inbound =
    JoinRoom jsval
  | YjsUpdate jsval
  | AwarenessUpdate jsval
  | CursorUpdate jsval
  | Typing jsval
  | RequestSync jsval
  | SendSync jsval
  | LeaveRoom jsval
  | Disconnect jsval
  | SocketError jsval

fun field :: "string \<Rightarrow> jsval \<Rightarrow> jsval" where
  "field k (JObj fs) = (case map_of fs k of None \<Rightarrow> JUndefined | Some v \<Rightarrow> v)"
| "field k _ = JUndefined"

definition destructurable :: "jsval \<Rightarrow> bool" where
  "destructurable p \<longleftrightarrow> p \<noteq> JUndefined \<and> p \<noteq> JNull"

text \<open>
  One event of socket \<open>sid\<close>. \<open>None\<close> is the TypeError of the destructuring, which leaves
  the state as it is. When socket.io fires \<open>disconnect\<close> the socket has left all its rooms.
\<close>

fun on_event :: "clock \<Rightarrow> jsstring \<Rightarrow> inbound \<Rightarrow> server \<Rightarrow> (emission list \<times> server) option" where
  "on_event clk sid (JoinRoom p) st =
     (if destructurable p
      then Some (join_room clk sid (field ''roomId'' p) (field ''username'' p) (field ''userId'' p) st)
      else None)"
| "on_event clk sid (YjsUpdate p) st =
     (if destructurable p then Some (yjs_update sid (field ''roomId'' p) (field ''update'' p) st) else None)"
| "on_event clk sid (AwarenessUpdate p) st =
     (if destructurable p then Some (awareness_update sid (field ''roomId'' p) (field ''update'' p) st) else None)"
| "on_event clk sid (CursorUpdate p) st =
     (if destructurable p then Some (cursor_update sid (field ''roomId'' p) (field ''position'' p) st) else None)"
| "on_event clk sid (Typing p) st =
     (if destructurable p then Some (typing sid (field ''roomId'' p) (field ''isTyping'' p) st) else None)"
| "on_event clk sid (RequestSync p) st =
     (if destructurable p then Some (request_sync sid (field ''roomId'' p) st) else None)"
| "on_event clk sid (SendSync p) st =
     (if destructurable p
      then Some (send_sync sid (field ''to'' p) (field ''roomId'' p) (field ''state'' p) st)
      else None)"
| "on_event clk sid (LeaveRoom p) st =
     (if destructurable p then Some (leave_room sid (field ''roomId'' p) st) else None)"
| "on_event clk sid (Disconnect reason) st =
     Some (disconnect sid (st\<lparr>socketRooms := (socketRooms st)(sid := None)\<rparr>))"
| "on_event clk sid (SocketError err) st = Some ([], st)"

definition init :: server where
  "init = \<lparr>rooms = [], roomMetadata = [], socketRooms = Map.empty\<rparr>"

text \<open>A new connection: socket.io puts the socket into the room named by its id.\<close>

definition connect :: "jsstring \<Rightarrow> server \<Rightarrow> server" where
  "connect sid st = st\<lparr>socketRooms := (socketRooms st)(sid \<mapsto> [sid])\<rparr>"

text \<open>
  The states the server can be in between two handler invocations: sockets connect, each
  event of a connected socket is handled to completion, and the sweep runs now and then.
\<close>

inductive reachable :: "server \<Rightarrow> bool" where
  reach_init: "reachable init"
| reach_connect: "reachable st \<Longrightarrow> socketRooms st sid = None \<Longrightarrow> reachable (connect sid st)"
| reach_event: "reachable st \<Longrightarrow> socketRooms st sid \<noteq> None \<Longrightarrow>
     on_event clk sid ev st = Some (out, st') \<Longrightarrow> reachable st'"
| reach_sweep: "reachable st \<Longrightarrow> reachable (snd (cleanupEmptyRooms st))"

text \<open>The member object of a connection in a room, and the rooms a connection is a member of.\<close>

definition memberOf :: "server \<Rightarrow> jsstring \<Rightarrow> jsstring \<Rightarrow> userData option" where
  "memberOf st roomId sid = (case map_of (rooms st) roomId of None \<Rightarrow> None | Some room \<Rightarrow> map_of room sid)"

definition memberRooms :: "server \<Rightarrow> jsstring \<Rightarrow> jsstring list" where
  "memberRooms st sid = map fst (filter (\<lambda>(roomId, room). map_of room sid \<noteq> None) (rooms st))"

definition memberCount :: "server \<Rightarrow> jsstring \<Rightarrow> nat" where
  "memberCount st roomId = (case map_of (rooms st) roomId of None \<Rightarrow> 0 | Some room \<Rightarrow> length room)"

section \<open>Runs of join events\<close>

text \<open>
  A run of \<open>join-room\<close> events of one connection, each with its clock and the fields
  \<open>roomId\<close>, \<open>username\<close>, \<open>userId\<close> of its payload.
\<close>

fun joins :: "jsstring \<Rightarrow> (clock \<times> jsval \<times> jsval \<times> jsval) list \<Rightarrow> server \<Rightarrow> server" where
  "joins sid [] st = st"
| "joins sid ((clk, roomIdV, usernameV, userIdV) # evs) st =
     joins sid evs (snd (join_room clk sid roomIdV usernameV userIdV st))"

text \<open>The room ids of a run of joins that pass validation, in the order of the run.\<close>

fun validRoomIds :: "(clock \<times> jsval \<times> jsval \<times> jsval) list \<Rightarrow> jsstring list" where
  "validRoomIds [] = []"
| "validRoomIds ((clk, JStr roomId, usernameV, userIdV) # evs) =
     (if isValidRoomId (JStr roomId) then roomId # validRoomIds evs else validRoomIds evs)"
| "validRoomIds (ev # evs) = validRoomIds evs"

text \<open>
  A run of \<open>join-room\<close> events for one room, each of its own connection: the clock, the
  socket id, and the fields \<open>username\<close> and \<open>userId\<close>.
\<close>

fun joinAll :: "jsstring \<Rightarrow> (clock \<times> jsstring \<times> jsval \<times> jsval) list \<Rightarrow> server \<Rightarrow> server" where
  "joinAll roomId [] st = st"
| "joinAll roomId ((clk, sid, usernameV, userIdV) # js) st =
     joinAll roomId js (snd (join_room clk sid (JStr roomId) usernameV userIdV st))"

definition joiner :: "clock \<times> jsstring \<times> jsval \<times> jsval \<Rightarrow> jsstring" where
  "joiner j = fst (snd j)"

section \<open>The parts of a successful join\<close>

text \<open>
  The member object a join builds, the state it leaves, and the four events it sends
  after that; \<open>join_room_valid\<close> below shows that the handler is their composition.
\<close>

definition newMember :: "clock \<Rightarrow> jsstring \<Rightarrow> jsval \<Rightarrow> jsval \<Rightarrow> nat \<Rightarrow> userData" where
  "newMember clk sid usernameV userIdV n =
     \<lparr>id_sock = sid,
      username = sanitizeUsername (millis clk) usernameV,
      userId = (if truthy userIdV then userIdV else JStr sid),
      color = getUserColor n,
      joinedAt = isoJoined clk\<rparr>"

definition roomOf :: "server \<Rightarrow> jsstring \<Rightarrow> (jsstring \<times> userData) list" where
  "roomOf st roomId = (case map_of (rooms st) roomId of None \<Rightarrow> [] | Some room \<Rightarrow> room)"

definition admit :: "clock \<Rightarrow> jsstring \<Rightarrow> jsstring \<Rightarrow> userData \<Rightarrow> server \<Rightarrow> server" where
  "admit clk sid roomId u st =
     (socket_join sid roomId st)
       \<lparr>rooms := AList.update roomId (AList.update sid u (roomOf st roomId)) (rooms st),
        roomMetadata :=
          (if map_of (rooms st) roomId = None
           then AList.update roomId \<lparr>createdAt = isoCreated clk, createdBy = sid\<rparr> (roomMetadata st)
           else roomMetadata st)\<rparr>"

definition announce :: "jsstring \<Rightarrow> jsstring \<Rightarrow> userData \<Rightarrow> server \<Rightarrow> emission list" where
  "announce sid roomId u st =
     [Emit (ToSocket sid) ''room-users'' (roomUsers_js st roomId),
      Emit (ToOthers sid (JStr roomId)) ''user-joined'' (userData_js u),
      Emit (ToRoom (JStr roomId)) ''room-users'' (roomUsers_js st roomId),
      Emit (ToSocket sid) ''join-success''
        (JObj [(''roomId'', JStr roomId), (''userData'', userData_js u),
               (''userCount'', JNum (int (memberCount st roomId)))])]"

section \<open>Invariants\<close>

text \<open>
  The registry is a well-formed pair of maps: no room id twice, no connection twice in a
  room, and no room without a member.
\<close>

definition registry_ok :: "server \<Rightarrow> bool" where
  "registry_ok st \<longleftrightarrow>
     distinct (map fst (rooms st))
     \<and> list_all (\<lambda>(roomId, room). room \<noteq> [] \<and> distinct (map fst room)) (rooms st)"

definition roomsWF :: "(jsstring \<times> (jsstring \<times> userData) list) list \<Rightarrow> bool" where
  "roomsWF rs \<longleftrightarrow>
     distinct (map fst rs) \<and> (\<forall>r m. map_of rs r = Some m \<longrightarrow> m \<noteq> [] \<and> distinct (map fst m))"

text \<open>Every member of a room of the registry is in the socket.io room of that name.\<close>

definition members_in_rooms :: "server \<Rightarrow> bool" where
  "members_in_rooms st \<longleftrightarrow> (\<forall>r s. memberOf st r s \<noteq> None \<longrightarrow> inRoom st r s)"

text \<open>
  A socket is in no socket.io room but its own and the rooms of the registry it is a
  member of.
\<close>

definition joined_are_members :: "server \<Rightarrow> bool" where
  "joined_are_members st \<longleftrightarrow> (\<forall>r s. inRoom st r s \<and> r \<noteq> s \<longrightarrow> memberOf st r s \<noteq> None)"

definition consistent :: "server \<Rightarrow> bool" where
  "consistent st \<longleftrightarrow> registry_ok st \<and> members_in_rooms st"

text \<open>A code unit that neither \<open>trim\<close> nor the replacement of \<open>sanitizeUsername\<close> touches.\<close>

definition plain :: "16 word \<Rightarrow> bool" where
  "plain c \<longleftrightarrow> \<not> isWhiteSpace c \<and> c \<noteq> 0x3C \<and> c \<noteq> 0x3E"

section \<open>Example data\<close>

definition sockA :: jsstring where "sockA = ascii ''sockA''"
definition sockB :: jsstring where "sockB = ascii ''sockB''"
definition sockC :: jsstring where "sockC = ascii ''sockC''"
definition room1 :: jsstring where "room1 = ascii ''r1''"

definition clock0 :: clock where
  "clock0 = \<lparr>isoCreated = ascii ''2024-01-01T00:00:00.000Z'', millis = 1704067200000,
             isoJoined = ascii ''2024-01-01T00:00:00.001Z''\<rparr>"

text \<open>
  Two connections; the state after A joined \<open>r1\<close>; the state after B joined it too; and
  the state after A left again and a third connection C joined.
\<close>

definition twoSockets :: server where
  "twoSockets = connect sockB (connect sockA init)"

definition oneInRoom :: server where
  "oneInRoom = snd (join_room clock0 sockA (JStr room1) (JStr (ascii ''ann'')) JUndefined twoSockets)"

definition twoInRoom :: server where
  "twoInRoom = snd (join_room clock0 sockB (JStr room1) (JStr (ascii ''bob'')) JUndefined oneInRoom)"

definition afterDeparture :: server where
  "afterDeparture =
     snd (join_room clock0 sockC (JStr room1) (JStr (ascii ''cat'')) JUndefined
       (connect sockC (snd (leave_room sockA (JStr room1) twoInRoom))))"

text \<open>
  B joins the room named by the socket id of A; and the state after A joined that room too.
\<close>

definition onlyBInA :: server where
  "onlyBInA = snd (join_room clock0 sockB (JStr sockA) (JStr (ascii ''bob'')) JUndefined twoSockets)"

definition bothInA :: server where
  "bothInA = snd (join_room clock0 sockA (JStr sockA) (JStr (ascii ''ann'')) JUndefined onlyBInA)"

text \<open>Whom an event is addressed to, and its name.\<close>

fun addressed :: "emission \<Rightarrow> target \<times> string" where
  "addressed (Emit tg name payload) = (tg, name)"

text \<open>49 letters, a space and a letter: 51 code units, none of them \<open><\<close> or \<open>>\<close>.\<close>

definition longName :: jsstring where
  "longName = ascii ''aaaaaaaaaaaaaaaaaaaaaaaaaaaaaaaaaaaaaaaaaaaaaaaaa b''"

text \<open>Joining the room named by the socket's own id, and then \<open>r1\<close>.\<close>

definition ownIdRun :: "(clock \<times> jsval \<times> jsval \<times> jsval) list" where
  "ownIdRun =
     [(clock0, JStr sockA, JStr (ascii ''ann''), JUndefined),
      (clock0, JStr room1, JStr (ascii ''ann''), JUndefined)]"

section \<open>Leaving a room\<close>

lemma hul_nonstring: "(\<forall>s. v \<noteq> JStr s) \<Longrightarrow> handleUserLeaving sid v st = ([], st)"
  by (cases v) (simp_all add: handleUserLeaving_def)

lemma hul_not_member: "memberOf st r sid = None \<Longrightarrow> handleUserLeaving sid (JStr r) st = ([], st)"
  by (simp add: handleUserLeaving_def memberOf_def split: option.splits)

lemma rooms_socket_leave [simp]: "rooms (socket_leave sid r st) = rooms st"
  by (simp add: socket_leave_def split: option.splits)

lemma roomMetadata_socket_leave [simp]: "roomMetadata (socket_leave sid r st) = roomMetadata st"
  by (simp add: socket_leave_def split: option.splits)

lemma rooms_socket_join [simp]: "rooms (socket_join sid r st) = rooms st"
  by (simp add: socket_join_def split: option.splits)

lemma roomMetadata_socket_join [simp]: "roomMetadata (socket_join sid r st) = roomMetadata st"
  by (simp add: socket_join_def split: option.splits)

lemma member_socket_leave [simp]: "memberOf (socket_leave sid r st) = memberOf st"
  by (simp add: memberOf_def fun_eq_iff)

lemma member_socket_join [simp]: "memberOf (socket_join sid r st) = memberOf st"
  by (simp add: memberOf_def fun_eq_iff)

lemma hul_member:
  "memberOf (snd (handleUserLeaving sid (JStr r) st)) r' s =
     (if r' = r \<and> s = sid then None else memberOf st r' s)"
proof (cases "memberOf st r sid")
  case None
  then show ?thesis by (auto simp: hul_not_member)
next
  case (Some u)
  then obtain room where room: "map_of (rooms st) r = Some room" "map_of room sid = Some u"
    by (auto simp: memberOf_def split: option.splits)
  show ?thesis
  proof (cases "AList.delete sid room = []")
    case True
    then have "\<And>s. s \<noteq> sid \<Longrightarrow> map_of room s = None"
      by (metis map_of_delete map_of.simps(1))
    with room True show ?thesis
      by (auto simp: handleUserLeaving_def memberOf_def Let_def update_conv' delete_conv')
  next
    case False
    with room show ?thesis
      by (auto simp: handleUserLeaving_def memberOf_def Let_def update_conv' delete_conv')
  qed
qed

lemma hul_out:
  assumes "memberOf st r sid = Some u"
  shows "\<exists>rest. fst (handleUserLeaving sid (JStr r) st) =
           Emit (ToOthers sid (JStr r)) ''user-left''
             (JObj [(''userId'', JStr sid), (''username'', JStr (username u))]) # rest"
  using assms by (auto simp: handleUserLeaving_def memberOf_def Let_def split: option.splits)

lemma hul_socketRooms_other:
  "t \<noteq> sid \<Longrightarrow> socketRooms (snd (handleUserLeaving sid v st)) t = socketRooms st t"
  by (cases v) (auto simp: handleUserLeaving_def Let_def socket_leave_def split: option.splits)

section \<open>A successful join, in parts\<close>

lemma join_room_valid:
  assumes "isValidRoomId (JStr r)" and "leaveExisting sid st = (out1, st1)"
  shows "join_room clk sid (JStr r) usernameV userIdV st =
           (out1 @ announce sid r (newMember clk sid usernameV userIdV (memberCount st1 r))
                     (admit clk sid r (newMember clk sid usernameV userIdV (memberCount st1 r)) st1),
            admit clk sid r (newMember clk sid usernameV userIdV (memberCount st1 r)) st1)"
proof (cases "map_of (rooms st1) r")
  case None
  with assms show ?thesis
    by (simp add: join_room_def Let_def update_conv' announce_def admit_def newMember_def
        roomOf_def memberCount_def roomUsers_js_def)
next
  case (Some room)
  with assms show ?thesis
    by (simp add: join_room_def Let_def update_conv' announce_def admit_def newMember_def
        roomOf_def memberCount_def roomUsers_js_def)
qed

section \<open>The loops\<close>

lemma snd_forEach_Cons: "snd (forEach f (x # xs) st) = snd (forEach f xs (snd (f x st)))"
  by (simp add: split_beta forEach.simps(2))

lemma fst_forEach_Cons: "fst (forEach f (x # xs) st) = fst (f x st) @ fst (forEach f xs (snd (f x st)))"
  by (simp add: split_beta forEach.simps(2))

lemma forEach_inv:
  assumes "\<And>x s. x \<in> set xs \<Longrightarrow> P s \<Longrightarrow> P (snd (f x s))" and "P st"
  shows "P (snd (forEach f xs st))"
  using assms
proof (induction xs arbitrary: st)
  case Nil
  then show ?case by simp
next
  case (Cons x xs)
  then show ?case by (simp add: snd_forEach_Cons)
qed

lemma leaveOne_member:
  "memberOf (snd (leaveOne sid x st)) r' s = (if s = sid \<and> r' = x \<and> r' \<noteq> sid then None else memberOf st r' s)"
  by (auto simp: leaveOne_def hul_member)

lemma forEach_leaveOne_member:
  "memberOf (snd (forEach (leaveOne sid) xs st)) r' s =
     (if s = sid \<and> r' \<in> set xs \<and> r' \<noteq> sid then None else memberOf st r' s)"
  by (induction xs arbitrary: st) (auto simp: snd_forEach_Cons leaveOne_member)

lemma leaveExisting_member:
  "memberOf (snd (leaveExisting sid st)) r' s =
     (if s = sid \<and> inRoom st r' sid \<and> r' \<noteq> sid then None else memberOf st r' s)"
  by (simp add: leaveExisting_def forEach_leaveOne_member inRoom_def)

lemma hul_socketRooms_self:
  "socketRooms (snd (handleUserLeaving sid (JStr r) st)) sid =
     (if memberOf st r sid = None then socketRooms st sid else map_option (removeAll r) (socketRooms st sid))"
  by (auto simp: handleUserLeaving_def Let_def socket_leave_def memberOf_def split: option.splits)

lemma leaveOne_socketRooms:
  "socketRooms (snd (leaveOne sid x st)) t =
     (if t = sid \<and> x \<noteq> sid then map_option (removeAll x) (socketRooms st sid) else socketRooms st t)"
  apply (cases "t = sid")
   apply (auto simp: leaveOne_def hul_socketRooms_self hul_socketRooms_other socket_leave_def
      split: option.splits)
  done

lemma forEach_leaveOne_socketRooms:
  "socketRooms (snd (forEach (leaveOne sid) xs st)) t =
     (if t = sid then map_option (filter (\<lambda>r. r = sid \<or> r \<notin> set xs)) (socketRooms st sid)
      else socketRooms st t)"
proof (induction xs arbitrary: st)
  case Nil
  then show ?case by (simp add: option.map_ident)
next
  case (Cons x xs)
  show ?case
    apply (simp add: snd_forEach_Cons Cons leaveOne_socketRooms option.map_comp comp_def removeAll_filter_not_eq)
    apply (auto intro!: option.map_cong filter_cong)
    done
qed

lemma leaveExisting_socketRooms:
  "socketRooms (snd (leaveExisting sid st)) t =
     (if t = sid then map_option (filter (\<lambda>r. r = sid)) (socketRooms st sid) else socketRooms st t)"
  by (cases "socketRooms st sid")
    (auto simp: leaveExisting_def forEach_leaveOne_socketRooms socket_rooms_def intro!: filter_cong)

section \<open>The registry stays well formed\<close>

lemma registry_ok_iff: "registry_ok st \<longleftrightarrow> roomsWF (rooms st)"
  unfolding registry_ok_def roomsWF_def list_all_iff
  by (auto simp: map_of_eq_Some_iff) blast+

lemma roomsWF_update:
  "roomsWF rs \<Longrightarrow> m \<noteq> [] \<Longrightarrow> distinct (map fst m) \<Longrightarrow> roomsWF (AList.update r m rs)"
  by (auto simp: roomsWF_def distinct_update update_conv')

lemma roomsWF_delete: "roomsWF rs \<Longrightarrow> roomsWF (AList.delete r rs)"
  by (auto simp: roomsWF_def distinct_delete delete_conv')

lemma hul_registry_ok: "registry_ok st \<Longrightarrow> registry_ok (snd (handleUserLeaving sid v st))"
proof (cases v)
  case (JStr r)
  assume ok: "registry_ok st"
  show ?thesis
  proof (cases "map_of (rooms st) r")
    case None
    with ok JStr show ?thesis by (simp add: handleUserLeaving_def)
  next
    case (Some room)
    from ok Some have d: "distinct (map fst room)"
      by (auto simp: registry_ok_iff roomsWF_def)
    then have d': "distinct (map fst (AList.delete sid room))"
      by (rule distinct_delete)
    from ok have wf: "roomsWF (rooms st)" by (simp add: registry_ok_iff)
    show ?thesis
      using JStr Some d' wf
      by (auto simp: handleUserLeaving_def Let_def registry_ok_iff delete_update_same
          intro: roomsWF_update roomsWF_delete split: option.splits)
  qed
qed (simp_all add: handleUserLeaving_def)

lemma leaveOne_registry_ok: "registry_ok st \<Longrightarrow> registry_ok (snd (leaveOne sid x st))"
  using hul_registry_ok [of "socket_leave sid x st" sid "JStr x"]
  by (simp add: leaveOne_def registry_ok_def)

lemma leaveExisting_registry_ok: "registry_ok st \<Longrightarrow> registry_ok (snd (leaveExisting sid st))"
  unfolding leaveExisting_def by (rule forEach_inv) (auto intro: leaveOne_registry_ok)

lemma roomOf_distinct: "registry_ok st \<Longrightarrow> distinct (map fst (roomOf st r))"
  by (auto simp: roomOf_def registry_ok_iff roomsWF_def split: option.splits)

lemma admit_registry_ok: "registry_ok st \<Longrightarrow> registry_ok (admit clk sid r u st)"
  by (simp add: registry_ok_iff admit_def roomsWF_update distinct_update roomOf_distinct)

lemma join_room_registry_ok:
  "registry_ok st \<Longrightarrow> registry_ok (snd (join_room clk sid v un ui st))"
proof (cases "isValidRoomId v")
  case False
  assume "registry_ok st"
  with False show ?thesis by (simp add: join_room_def)
next
  case True
  assume ok: "registry_ok st"
  from True obtain r where v: "v = JStr r" by (cases v) simp_all
  obtain out1 st1 where le: "leaveExisting sid st = (out1, st1)" by (cases "leaveExisting sid st")
  with ok have "registry_ok st1"
    using leaveExisting_registry_ok [of st sid] by simp
  then show ?thesis
    using True v le by (simp add: join_room_valid admit_registry_ok)
qed

lemma cleanup_fold_id:
  "list_all (\<lambda>(roomId, room). room \<noteq> []) rs \<Longrightarrow>
   fold (\<lambda>(roomId, users) (emptyRooms, s).
             if length users = 0
             then (emptyRooms @ [roomId],
                   s\<lparr>rooms := AList.delete roomId (rooms s),
                     roomMetadata := AList.delete roomId (roomMetadata s)\<rparr>)
             else (emptyRooms, s)) rs acc = acc"
  by (induction rs arbitrary: acc) (auto simp: split_beta)

lemma cleanupEmptyRooms_id: "registry_ok st \<Longrightarrow> cleanupEmptyRooms st = ([], st)"
  unfolding cleanupEmptyRooms_def registry_ok_def
  by (rule cleanup_fold_id) (auto simp: list_all_iff)

section \<open>Disconnecting\<close>

lemma dropFrom_eq: "dropFrom sid x s = handleUserLeaving sid (JStr x) s"
  by (auto simp: dropFrom_def handleUserLeaving_def split: option.splits)

lemma forEach_dropFrom_member:
  "memberOf (snd (forEach (dropFrom sid) xs st)) r' t =
     (if t = sid \<and> r' \<in> set xs then None else memberOf st r' t)"
  by (induction xs arbitrary: st) (auto simp: snd_forEach_Cons dropFrom_eq hul_member)

lemma member_no_room: "r \<notin> fst ` set (rooms st) \<Longrightarrow> memberOf st r s = None"
  by (simp add: memberOf_def map_of_eq_None_iff [THEN iffD2])

lemma disconnect_member:
  "memberOf (snd (disconnect sid st)) r' t = (if t = sid then None else memberOf st r' t)"
  by (auto simp: disconnect_def forEach_dropFrom_member member_no_room)

lemma hul_socketRooms_gone:
  "socketRooms st sid = None \<Longrightarrow> socketRooms (snd (handleUserLeaving sid v st)) = socketRooms st"
  by (cases v) (auto simp: handleUserLeaving_def Let_def socket_leave_def split: option.splits)

lemma disconnect_socketRooms:
  "socketRooms st sid = None \<Longrightarrow> socketRooms (snd (disconnect sid st)) = socketRooms st"
  unfolding disconnect_def
  by (rule forEach_inv [where P = "\<lambda>s. socketRooms s = socketRooms st"])
     (auto simp: dropFrom_eq hul_socketRooms_gone)

lemma disconnect_registry_ok: "registry_ok st \<Longrightarrow> registry_ok (snd (disconnect sid st))"
  unfolding disconnect_def
  by (rule forEach_inv) (auto simp: dropFrom_eq hul_registry_ok)

section \<open>Members are in the socket.io room\<close>

lemma inRoom_iff: "inRoom st r s \<longleftrightarrow> (\<exists>rs. socketRooms st s = Some rs \<and> r \<in> set rs)"
  by (cases "socketRooms st s") (auto simp: inRoom_def socket_rooms_def)

lemma inRoom_connected: "inRoom st r s \<Longrightarrow> socketRooms st s \<noteq> None"
  by (cases "socketRooms st s") (auto simp: inRoom_def socket_rooms_def)

lemma member_rooms_cong: "rooms st' = rooms st \<Longrightarrow> memberOf st' = memberOf st"
  by (simp add: memberOf_def fun_eq_iff)

lemma hul_members_in_rooms:
  assumes "members_in_rooms st"
  shows "members_in_rooms (snd (handleUserLeaving sid v st))"
proof (cases v)
  case (JStr r)
  show ?thesis
    unfolding members_in_rooms_def
  proof (intro allI impI)
    fix r' s
    assume m: "memberOf (snd (handleUserLeaving sid v st)) r' s \<noteq> None"
    then have m0: "memberOf st r' s \<noteq> None" and ne: "\<not> (r' = r \<and> s = sid)"
      by (auto simp: JStr hul_member split: if_splits)
    with assms have i: "inRoom st r' s" by (simp add: members_in_rooms_def)
    show "inRoom (snd (handleUserLeaving sid v st)) r' s"
    proof (cases "s = sid")
      case False
      then show ?thesis using i
        by (simp add: hul_socketRooms_other inRoom_def socket_rooms_def)
    next
      case True
      with ne have "r' \<noteq> r" by simp
      with i True show ?thesis
        by (auto simp: JStr inRoom_iff hul_socketRooms_self)
    qed
  qed
qed (use assms in \<open>simp_all add: handleUserLeaving_def\<close>)

lemma leave_room_consistent: "consistent st \<Longrightarrow> consistent (snd (leave_room sid v st))"
  by (simp add: consistent_def leave_room_def hul_registry_ok hul_members_in_rooms)

lemma leaveExisting_members_in_rooms:
  assumes "members_in_rooms st"
  shows "members_in_rooms (snd (leaveExisting sid st))"
  unfolding members_in_rooms_def
proof (intro allI impI)
  fix r' s
  assume m: "memberOf (snd (leaveExisting sid st)) r' s \<noteq> None"
  then have m0: "memberOf st r' s \<noteq> None" and ne: "\<not> (s = sid \<and> inRoom st r' sid \<and> r' \<noteq> sid)"
    by (auto simp: leaveExisting_member split: if_splits)
  with assms have i: "inRoom st r' s" by (simp add: members_in_rooms_def)
  show "inRoom (snd (leaveExisting sid st)) r' s"
  proof (cases "s = sid")
    case False
    then show ?thesis using i
      by (simp add: leaveExisting_socketRooms inRoom_def socket_rooms_def)
  next
    case True
    with ne i have "r' = sid" by simp
    with i True show ?thesis
      by (auto simp: inRoom_iff leaveExisting_socketRooms)
  qed
qed

lemma admit_member:
  "memberOf (admit clk sid r u st) r' s = (if r' = r \<and> s = sid then Some u else memberOf st r' s)"
  by (auto simp: admit_def memberOf_def update_conv' roomOf_def split: option.splits)

lemma admit_socketRooms:
  "socketRooms (admit clk sid r u st) t =
     (if t = sid then map_option (\<lambda>rs. if r \<in> set rs then rs else rs @ [r]) (socketRooms st sid)
      else socketRooms st t)"
  by (auto simp: admit_def socket_join_def split: option.splits)

lemma admit_inRoom:
  "inRoom (admit clk sid r u st) r' s \<longleftrightarrow>
     (if s = sid then socketRooms st sid \<noteq> None \<and> (r' = r \<or> inRoom st r' sid) else inRoom st r' s)"
  by (cases "socketRooms st sid") (auto simp: inRoom_def socket_rooms_def admit_socketRooms)

lemma admit_members_in_rooms:
  assumes "members_in_rooms st" and "socketRooms st sid \<noteq> None"
  shows "members_in_rooms (admit clk sid r u st)"
  unfolding members_in_rooms_def
proof (intro allI impI)
  fix r' s
  assume m: "memberOf (admit clk sid r u st) r' s \<noteq> None"
  show "inRoom (admit clk sid r u st) r' s"
  proof (cases "r' = r \<and> s = sid")
    case True
    with assms(2) show ?thesis
      by (simp add: admit_inRoom)
  next
    case False
    with m have "memberOf st r' s \<noteq> None" by (simp add: admit_member)
    with assms(1) have "inRoom st r' s" by (simp add: members_in_rooms_def)
    then show ?thesis
      using inRoom_connected [of st r' s] by (auto simp: admit_inRoom)
  qed
qed

lemma join_room_consistent:
  assumes "consistent st" and "socketRooms st sid \<noteq> None"
  shows "consistent (snd (join_room clk sid v un ui st))"
proof (cases "isValidRoomId v")
  case False
  with assms show ?thesis by (simp add: join_room_def)
next
  case True
  then obtain r where v: "v = JStr r" by (cases v) simp_all
  obtain out1 st1 where le: "leaveExisting sid st = (out1, st1)" by (cases "leaveExisting sid st")
  then have st1: "st1 = snd (leaveExisting sid st)" by simp
  have "members_in_rooms st1" "socketRooms st1 sid \<noteq> None"
    using assms by (auto simp: st1 consistent_def leaveExisting_members_in_rooms leaveExisting_socketRooms)
  then have "members_in_rooms (snd (join_room clk sid v un ui st))"
    using True v le by (simp add: join_room_valid admit_members_in_rooms)
  with assms show ?thesis
    by (simp add: consistent_def join_room_registry_ok)
qed

lemma disconnect_consistent:
  assumes "consistent st"
  shows "consistent (snd (disconnect sid (st\<lparr>socketRooms := (socketRooms st)(sid := None)\<rparr>)))"
proof -
  let ?st0 = "st\<lparr>socketRooms := (socketRooms st)(sid := None)\<rparr>"
  have r: "registry_ok ?st0" using assms by (simp add: consistent_def registry_ok_def)
  have s: "socketRooms (snd (disconnect sid ?st0)) = (socketRooms st)(sid := None)"
    by (simp add: disconnect_socketRooms)
  have "members_in_rooms (snd (disconnect sid ?st0))"
    unfolding members_in_rooms_def
  proof (intro allI impI)
    fix r' t
    assume "memberOf (snd (disconnect sid ?st0)) r' t \<noteq> None"
    moreover have "memberOf ?st0 = memberOf st"
      by (rule member_rooms_cong) simp
    ultimately have "t \<noteq> sid" "memberOf st r' t \<noteq> None"
      by (auto simp: disconnect_member split: if_splits)
    with assms have "inRoom st r' t" by (simp add: consistent_def members_in_rooms_def)
    with \<open>t \<noteq> sid\<close> show "inRoom (snd (disconnect sid ?st0)) r' t"
      by (simp add: inRoom_iff s)
  qed
  with r show ?thesis by (simp add: consistent_def disconnect_registry_ok)
qed

lemma on_event_consistent:
  assumes "consistent st" and "socketRooms st sid \<noteq> None" and "on_event clk sid ev st = Some (out, st')"
  shows "consistent st'"
proof (cases ev)
  case (JoinRoom p)
  with assms show ?thesis
    using join_room_consistent [of st sid clk "field ''roomId'' p" "field ''username'' p" "field ''userId'' p"]
    by (auto split: if_splits)
next
  case (LeaveRoom p)
  with assms show ?thesis
    using leave_room_consistent [of st sid "field ''roomId'' p"]
    by (auto split: if_splits)
next
  case (Disconnect reason)
  with assms show ?thesis
    using disconnect_consistent [of st sid] by auto
qed (use assms in \<open>auto simp: yjs_update_def awareness_update_def cursor_update_def typing_def
       request_sync_def send_sync_def split: if_splits option.splits\<close>)

lemma connect_consistent:
  assumes "consistent st" and "socketRooms st sid = None"
  shows "consistent (connect sid st)"
proof -
  have "memberOf (connect sid st) = memberOf st"
    by (simp add: connect_def memberOf_def fun_eq_iff)
  moreover have "\<And>r s. inRoom st r s \<Longrightarrow> inRoom (connect sid st) r s"
    using assms(2) by (auto simp: inRoom_iff connect_def)
  ultimately show ?thesis
    using assms(1) by (auto simp: consistent_def members_in_rooms_def registry_ok_def connect_def)
qed

lemma init_consistent: "consistent init"
  by (simp add: consistent_def registry_ok_def members_in_rooms_def init_def memberOf_def)

lemma reachable_consistent: "reachable st \<Longrightarrow> consistent st"
proof (induction rule: reachable.induct)
  case reach_init
  show ?case by (rule init_consistent)
next
  case (reach_connect st sid)
  then show ?case by (simp add: connect_consistent)
next
  case (reach_event st sid clk ev out st')
  then show ?case by (auto intro: on_event_consistent)
next
  case (reach_sweep st)
  then show ?case by (simp add: consistent_def cleanupEmptyRooms_id)
qed

section \<open>Sanitized names\<close>

lemma digit_cases:
  assumes "d < 10"
  shows "(0x30 + of_nat d :: 16 word) \<in> {0x30, 0x31, 0x32, 0x33, 0x34, 0x35, 0x36, 0x37, 0x38, 0x39}"
proof -
  from assms have "d \<in> {0, 1, 2, 3, 4, 5, 6, 7, 8, 9}" by auto
  then show ?thesis by auto
qed

lemma plain_digit: "d < 10 \<Longrightarrow> plain (0x30 + of_nat d)"
  using digit_cases [of d] by (auto simp: plain_def isWhiteSpace_def)

lemma decimal_plain: "\<forall>c \<in> set (decimal n). plain c"
proof (induction n rule: decimal.induct)
  case (1 n)
  show ?case
  proof (cases "n < 10")
    case True
    then show ?thesis by (subst decimal.simps) (simp add: plain_digit)
  next
    case False
    with 1 show ?thesis by (subst decimal.simps) (simp add: plain_digit)
  qed
qed

lemma decimal_nonempty: "decimal n \<noteq> []"
  by (subst decimal.simps) simp

lemma decimal_length: "n < 10 ^ k \<Longrightarrow> 0 < k \<Longrightarrow> length (decimal n) \<le> k"
proof (induction n arbitrary: k rule: decimal.induct)
  case (1 n)
  show ?case
  proof (cases "n < 10")
    case True
    with 1 show ?thesis by (subst decimal.simps) simp
  next
    case False
    with "1.prems" obtain k' where k: "k = Suc k'" by (cases k) auto
    with False "1.prems" have "0 < k'" by (cases k') auto
    moreover from "1.prems" k have "n div 10 < 10 ^ k'" by (simp add: less_mult_imp_div_less mult.commute)
    ultimately have "length (decimal (n div 10)) \<le> k'" using 1 False by simp
    with False k show ?thesis by (subst decimal.simps) simp
  qed
qed

lemma guestName_plain: "\<forall>c \<in> set (guestName now). plain c"
  using decimal_plain [of now]
  by (auto simp: guestName_def ascii_def plain_def isWhiteSpace_def)

lemma guestName_nonempty: "guestName now \<noteq> []"
  by (simp add: guestName_def ascii_def)

lemma guestName_length: "now \<le> 8640000000000000 \<Longrightarrow> length (guestName now) \<le> 50"
proof -
  assume "now \<le> 8640000000000000"
  then have "now < 10 ^ 16" by simp
  then have "length (decimal now) \<le> 16" by (rule decimal_length) simp
  then show ?thesis by (simp add: guestName_def ascii_def)
qed

lemma stripAngles_id: "\<forall>c \<in> set s. c \<noteq> 0x3C \<and> c \<noteq> 0x3E \<Longrightarrow> stripAngles s = s"
  by (simp add: stripAngles_def)

lemma stripAngles_set: "c \<in> set (stripAngles s) \<Longrightarrow> c \<noteq> 0x3C \<and> c \<noteq> 0x3E"
  by (simp add: stripAngles_def)

lemma trim_id: "s \<noteq> [] \<Longrightarrow> \<not> isWhiteSpace (hd s) \<Longrightarrow> \<not> isWhiteSpace (last s) \<Longrightarrow> trim s = s"
proof -
  assume s: "s \<noteq> []" and h: "\<not> isWhiteSpace (hd s)" and l: "\<not> isWhiteSpace (last s)"
  from s h have 1: "dropWhile isWhiteSpace s = s" by (cases s) simp_all
  from s l have 2: "dropWhile isWhiteSpace (rev s) = rev s"
    by (cases "rev s") (simp_all add: last_rev [symmetric] hd_rev)
  show ?thesis by (simp add: trim_def 1 2)
qed

lemma trim_prefix: "\<exists>ts. dropWhile isWhiteSpace s = trim s @ ts"
proof -
  let ?d = "dropWhile isWhiteSpace s"
  have "rev (takeWhile isWhiteSpace (rev ?d) @ dropWhile isWhiteSpace (rev ?d)) = ?d"
    by (simp only: takeWhile_dropWhile_id rev_rev_ident)
  then have "?d = trim s @ rev (takeWhile isWhiteSpace (rev ?d))"
    by (simp only: rev_append trim_def)
  then show ?thesis ..
qed

lemma trim_hd: "trim s \<noteq> [] \<Longrightarrow> \<not> isWhiteSpace (hd (trim s))"
proof -
  assume ne: "trim s \<noteq> []"
  obtain ts where ts: "dropWhile isWhiteSpace s = trim s @ ts" using trim_prefix by blast
  with ne have "hd (trim s) = hd (dropWhile isWhiteSpace s)" by simp
  moreover from ts ne have "dropWhile isWhiteSpace s \<noteq> []" by simp
  ultimately show ?thesis using hd_dropWhile [of isWhiteSpace s] by simp
qed

lemma trim_subset: "set (trim s) \<subseteq> set s"
proof -
  obtain ts where ts: "dropWhile isWhiteSpace s = trim s @ ts" using trim_prefix by blast
  have "set (trim s) \<subseteq> set (dropWhile isWhiteSpace s)" by (simp add: ts)
  also have "\<dots> \<subseteq> set s" by (rule set_dropWhileD [THEN subsetI]) 
  finally show ?thesis .
qed

lemma sanitize_fixed:
  assumes "r \<noteq> []" and "\<forall>c \<in> set r. c \<noteq> 0x3C \<and> c \<noteq> 0x3E" and "\<not> isWhiteSpace (hd r)"
    and "\<not> isWhiteSpace (last r)" and "length r \<le> 50"
  shows "sanitizeUsername now' (JStr r) = r"
  using assms by (simp add: stripAngles_id trim_id)

lemma sanitize_guest_fixed:
  assumes "now \<le> 8640000000000000"
  shows "sanitizeUsername now' (JStr (guestName now)) = guestName now"
proof (rule sanitize_fixed)
  show "guestName now \<noteq> []" by (rule guestName_nonempty)
  show "\<forall>c \<in> set (guestName now). c \<noteq> 0x3C \<and> c \<noteq> 0x3E"
    using guestName_plain by (auto simp: plain_def)
  show "\<not> isWhiteSpace (hd (guestName now))"
    by (simp add: guestName_def ascii_def isWhiteSpace_def)
  show "\<not> isWhiteSpace (last (guestName now))"
    using guestName_plain guestName_nonempty last_in_set plain_def by blast
  show "length (guestName now) \<le> 50" using assms by (rule guestName_length)
qed

section \<open>What a join and a leave emit\<close>

lemma leaveOne_idle: "memberOf st x sid = None \<or> x = sid \<Longrightarrow> fst (leaveOne sid x st) = []"
  by (auto simp: leaveOne_def hul_not_member)

lemma forEach_leaveOne_idle:
  "\<forall>x \<in> set xs. x \<noteq> sid \<longrightarrow> memberOf st x sid = None \<Longrightarrow> fst (forEach (leaveOne sid) xs st) = []"
proof (induction xs arbitrary: st)
  case Nil
  then show ?case by simp
next
  case (Cons x xs)
  then have 1: "fst (leaveOne sid x st) = []" by (auto intro: leaveOne_idle)
  have "\<forall>y \<in> set xs. y \<noteq> sid \<longrightarrow> memberOf (snd (leaveOne sid x st)) y sid = None"
    using Cons.prems by (simp add: leaveOne_member)
  then have "fst (forEach (leaveOne sid) xs (snd (leaveOne sid x st))) = []" by (rule Cons.IH)
  with 1 show ?case by (simp add: fst_forEach_Cons)
qed

lemma leaveExisting_idle:
  "\<forall>x. inRoom st x sid \<and> x \<noteq> sid \<longrightarrow> memberOf st x sid = None \<Longrightarrow> fst (leaveExisting sid st) = []"
  unfolding leaveExisting_def by (rule forEach_leaveOne_idle) (simp add: inRoom_def)

lemma admit_memberCount: "memberCount (admit clk sid r u st) r = length (AList.update sid u (roomOf st r))"
  by (simp add: memberCount_def admit_def update_conv')

lemma forEach_out_mem:
  "x \<in> set xs \<Longrightarrow> (\<And>s. P s \<Longrightarrow> e \<in> set (fst (f x s))) \<Longrightarrow>
   (\<And>y s. y \<in> set xs \<Longrightarrow> y \<noteq> x \<Longrightarrow> P s \<Longrightarrow> P (snd (f y s))) \<Longrightarrow> distinct xs \<Longrightarrow> P st \<Longrightarrow>
   e \<in> set (fst (forEach f xs st))"
proof (induction xs arbitrary: st)
  case Nil
  then show ?case by simp
next
  case (Cons y ys)
  show ?case
  proof (cases "y = x")
    case True
    with Cons.prems show ?thesis by (simp add: fst_forEach_Cons)
  next
    case False
    with Cons.prems have "x \<in> set ys" "P (snd (f y st))" "distinct ys" by auto
    then have "e \<in> set (fst (forEach f ys (snd (f y st))))"
      using Cons.prems(2,3) by (intro Cons.IH) auto
    then show ?thesis by (simp add: fst_forEach_Cons)
  qed
qed

lemma member_socketRooms_update [simp]: "memberOf (st\<lparr>socketRooms := x\<rparr>) = memberOf st"
  by (simp add: memberOf_def fun_eq_iff)

lemma hul_out_mem:
  assumes "memberOf st r sid = Some u"
  shows "Emit (ToOthers sid (JStr r)) ''user-left''
           (JObj [(''userId'', JStr sid), (''username'', JStr (username u))])
         \<in> set (fst (handleUserLeaving sid (JStr r) st))"
  using hul_out [OF assms] by auto

lemma disconnect_out_mem:
  assumes "registry_ok st" and "memberOf st r sid = Some u"
  shows "Emit (ToOthers sid (JStr r)) ''user-left''
           (JObj [(''userId'', JStr sid), (''username'', JStr (username u))])
         \<in> set (fst (disconnect sid st))"
  unfolding disconnect_def
proof (rule forEach_out_mem [where x = r and P = "\<lambda>s. memberOf s r sid = Some u"])
  show "r \<in> set (map fst (rooms st))"
    using assms(2) member_no_room [of r st sid] by auto
  show "distinct (map fst (rooms st))" using assms(1) by (simp add: registry_ok_def)
  show "memberOf st r sid = Some u" by (rule assms(2))
next
  fix s assume "memberOf s r sid = Some u"
  then show "Emit (ToOthers sid (JStr r)) ''user-left''
           (JObj [(''userId'', JStr sid), (''username'', JStr (username u))])
         \<in> set (fst (dropFrom sid r s))"
    by (simp add: dropFrom_eq hul_out_mem)
next
  fix y s assume "y \<noteq> r" "memberOf s r sid = Some u"
  then show "memberOf (snd (dropFrom sid y s)) r sid = Some u"
    by (simp add: dropFrom_eq hul_member)
qed

section \<open>Creation and deletion of rooms\<close>

lemma present_iff:
  assumes "registry_ok st"
  shows "r \<in> fst ` set (rooms st) \<longleftrightarrow> 1 \<le> memberCount st r"
proof
  assume "r \<in> fst ` set (rooms st)"
  then obtain m where m: "map_of (rooms st) r = Some m"
    by (metis map_of_eq_None_iff not_Some_eq)
  with assms have "m \<noteq> []" by (auto simp: registry_ok_iff roomsWF_def)
  with m show "1 \<le> memberCount st r" by (cases m) (simp_all add: memberCount_def)
next
  assume "1 \<le> memberCount st r"
  then have "map_of (rooms st) r \<noteq> None" by (auto simp: memberCount_def split: option.splits)
  then show "r \<in> fst ` set (rooms st)" by (simp add: map_of_eq_None_iff)
qed

lemma hul_last_member:
  assumes "memberOf st r sid \<noteq> None" and "memberCount st r = 1"
  shows "map_of (rooms (snd (handleUserLeaving sid (JStr r) st))) r = None
       \<and> map_of (roomMetadata (snd (handleUserLeaving sid (JStr r) st))) r = None"
proof -
  from assms obtain room u where room: "map_of (rooms st) r = Some room" "map_of room sid = Some u"
    "length room = 1"
    by (auto simp: memberOf_def memberCount_def split: option.splits)
  then obtain k v where "room = [(k, v)]" by (cases room) auto
  with room have "AList.delete sid room = []" by (auto split: if_splits)
  with room show ?thesis
    by (simp add: handleUserLeaving_def Let_def delete_conv')
qed

lemma hul_keeps_absent:
  "map_of (rooms st) r = None \<Longrightarrow> map_of (rooms (snd (handleUserLeaving sid v st))) r = None"
  by (cases v) (auto simp: handleUserLeaving_def Let_def update_conv' delete_conv' split: option.splits)

lemma leaveExisting_keeps_absent:
  "map_of (rooms st) r = None \<Longrightarrow> map_of (rooms (snd (leaveExisting sid st))) r = None"
  unfolding leaveExisting_def
  by (rule forEach_inv) (auto simp: leaveOne_def hul_keeps_absent)

lemma join_room_creates:
  assumes "isValidRoomId (JStr r)" and "map_of (rooms st) r = None"
  shows "\<exists>u. map_of (rooms (snd (join_room clk sid (JStr r) usernameV userIdV st))) r = Some [(sid, u)]
       \<and> map_of (roomMetadata (snd (join_room clk sid (JStr r) usernameV userIdV st))) r
           = Some \<lparr>createdAt = isoCreated clk, createdBy = sid\<rparr>"
proof -
  obtain out1 st1 where le: "leaveExisting sid st = (out1, st1)" by (cases "leaveExisting sid st")
  then have "map_of (rooms st1) r = None"
    using leaveExisting_keeps_absent [OF assms(2), of sid] by simp
  then show ?thesis
    using assms(1) le by (simp add: join_room_valid admit_def roomOf_def update_conv')
qed

section \<open>Colors\<close>

lemma length_USER_COLORS: "length USER_COLORS = 12"
  by (simp add: USER_COLORS_def)

lemma join_room_color:
  assumes "isValidRoomId (JStr r)"
  shows "\<exists>u. memberOf (snd (join_room clk sid (JStr r) usernameV userIdV st)) r sid = Some u
           \<and> color u = USER_COLORS ! (memberCount (snd (leaveExisting sid st)) r mod 12)"
proof -
  obtain out1 st1 where le: "leaveExisting sid st = (out1, st1)" by (cases "leaveExisting sid st")
  then show ?thesis
    using assms by (simp add: join_room_valid admit_member newMember_def getUserColor_def length_USER_COLORS)
qed

lemma join_room_member_other:
  assumes "s \<noteq> sid"
  shows "memberOf (snd (join_room clk sid v un ui st)) r' s = memberOf st r' s"
proof (cases "isValidRoomId v")
  case False
  then show ?thesis by (simp add: join_room_def)
next
  case True
  then obtain r where v: "v = JStr r" by (cases v) simp_all
  obtain out1 st1 where le: "leaveExisting sid st = (out1, st1)" by (cases "leaveExisting sid st")
  then have "memberOf st1 r' s = memberOf st r' s"
    using leaveExisting_member [of sid st r' s] assms by simp
  then show ?thesis
    using True v le assms by (simp add: join_room_valid admit_member)
qed

lemma on_event_member_other:
  assumes "on_event clk t ev st = Some (out, st')" and "s \<noteq> t"
  shows "memberOf st' r s = memberOf st r s"
proof (cases ev)
  case (JoinRoom p)
  with assms show ?thesis
    using join_room_member_other [of s t clk "field ''roomId'' p" "field ''username'' p" "field ''userId'' p" st r]
    by (auto split: if_splits)
next
  case (LeaveRoom p)
  show ?thesis
  proof (cases "field ''roomId'' p")
    case (JStr x)
    with assms LeaveRoom show ?thesis
      using hul_member [of t x st r s] by (auto simp: leave_room_def split: if_splits)
  qed (use assms LeaveRoom in \<open>auto simp: leave_room_def handleUserLeaving_def split: if_splits\<close>)
next
  case (Disconnect reason)
  with assms show ?thesis
    using disconnect_member [of t "st\<lparr>socketRooms := (socketRooms st)(t := None)\<rparr>" r s] by auto
qed (use assms in \<open>auto simp: yjs_update_def awareness_update_def cursor_update_def typing_def
       request_sync_def send_sync_def split: if_splits option.splits\<close>)

lemma length_update:
  "length (AList.update k v al) = (if k \<in> fst ` set al then length al else Suc (length al))"
  by (induction al) auto

lemma leaveExisting_fresh:
  assumes "socket_rooms st sid = [sid]"
  shows "leaveExisting sid st = ([], st)"
  by (simp add: leaveExisting_def leaveOne_def assms forEach.simps)

lemma join_room_fresh:
  assumes "isValidRoomId (JStr r)" and "socket_rooms st sid = [sid]"
  shows "snd (join_room clk sid (JStr r) un ui st) =
           admit clk sid r (newMember clk sid un ui (memberCount st r)) st"
  using assms by (simp add: join_room_valid [OF _ leaveExisting_fresh])

lemma admit_memberCount_new:
  assumes "memberOf st r sid = None"
  shows "memberCount (admit clk sid r u st) r = Suc (memberCount st r)"
proof (cases "map_of (rooms st) r")
  case None
  then have "memberCount st r = 0" by (simp add: memberCount_def)
  with None show ?thesis by (simp add: admit_memberCount roomOf_def)
next
  case (Some room)
  with assms have "sid \<notin> fst ` set room" by (simp add: memberOf_def map_of_eq_None_iff)
  moreover from Some have "memberCount st r = length room" by (simp add: memberCount_def)
  ultimately show ?thesis using Some by (simp add: admit_memberCount roomOf_def length_update)
qed

lemma admit_socket_rooms_other: "t \<noteq> sid \<Longrightarrow> socket_rooms (admit clk sid r u st) t = socket_rooms st t"
  by (simp add: socket_rooms_def admit_socketRooms)

lemma joinAll_member_other:
  "s \<notin> joiner ` set js \<Longrightarrow> memberOf (joinAll r js st) r' s = memberOf st r' s"
proof (induction js arbitrary: st)
  case Nil
  then show ?case by simp
next
  case (Cons j js)
  obtain clk sid un ui where j: "j = (clk, sid, un, ui)" by (cases j)
  then have "joiner j = sid" by (simp add: joiner_def)
  with Cons.prems have "s \<noteq> sid" "s \<notin> joiner ` set js" by auto
  with Cons.IH [of "snd (join_room clk sid (JStr r) un ui st)"] show ?case
    by (simp add: j join_room_member_other)
qed

lemma joinAll_color:
  assumes "isValidRoomId (JStr r)"
    and "distinct (map joiner js)"
    and "\<forall>j \<in> set js. socket_rooms st (joiner j) = [joiner j] \<and> memberOf st r (joiner j) = None"
    and "N < length js"
  shows "\<exists>u. memberOf (joinAll r js st) r (joiner (js ! N)) = Some u
           \<and> color u = getUserColor (memberCount st r + N)"
  using assms(2-)
proof (induction js arbitrary: st N)
  case Nil
  then show ?case by simp
next
  case (Cons j js)
  obtain clk sid un ui where j: "j = (clk, sid, un, ui)" by (cases j)
  let ?u = "newMember clk sid un ui (memberCount st r)"
  let ?st' = "admit clk sid r ?u st"
  have js: "joiner j = sid" by (simp add: j joiner_def)
  from Cons.prems(2) have fresh: "socket_rooms st sid = [sid]" "memberOf st r sid = None"
    using js by auto
  have step: "joinAll r (j # js) st = joinAll r js ?st'"
    using assms(1) fresh(1) by (simp add: j join_room_fresh)
  from Cons.prems(1) have notin: "sid \<notin> joiner ` set js" and d: "distinct (map joiner js)"
    using js by auto
  show ?case
  proof (cases N)
    case 0
    have "memberOf (joinAll r js ?st') r sid = Some ?u"
      using notin by (simp add: joinAll_member_other admit_member)
    then show ?thesis
      by (simp add: 0 step js newMember_def)
  next
    case (Suc n)
    have pre: "\<forall>k \<in> set js. socket_rooms ?st' (joiner k) = [joiner k] \<and> memberOf ?st' r (joiner k) = None"
      using Cons.prems(2) notin by (auto simp: admit_socket_rooms_other admit_member)
    from Cons.prems(3) Suc have "n < length js" by simp
    from Cons.IH [OF d pre this] show ?thesis
      by (simp add: Suc step admit_memberCount_new [OF fresh(2)])
  qed
qed

lemma joinAll_palette:
  assumes "isValidRoomId (JStr r)" and "map_of (rooms st) r = None"
    and "distinct (map joiner js)"
    and "\<forall>j \<in> set js. socket_rooms st (joiner j) = [joiner j]"
    and "N < length js"
  shows "\<exists>u. memberOf (joinAll r js st) r (joiner (js ! N)) = Some u
           \<and> color u = USER_COLORS ! (N mod 12)"
proof -
  from assms(2) have "\<And>s. memberOf st r s = None" and "memberCount st r = 0"
    by (simp_all add: memberOf_def memberCount_def)
  with joinAll_color [OF assms(1,3) _ assms(5), of st] assms(4)
  show ?thesis by (simp add: getUserColor_def length_USER_COLORS)
qed

section \<open>Who is reached\<close>

lemma reaches_ToRoom: "reaches st (ToRoom (JStr r)) t \<longleftrightarrow> inRoom st r t"
  using inRoom_connected [of st r t] by (auto simp: broadcast_def)

lemma reaches_ToOthers:
  "reaches st (ToOthers s (JStr r)) t \<longleftrightarrow> inRoom st r t \<and> \<not> inRoom st s t"
  using inRoom_connected [of st r t] by (auto simp: broadcast_def)

lemma reaches_everyone: "reaches st (ToRoom (JArr [])) t \<longleftrightarrow> socketRooms st t \<noteq> None"
  by (simp add: broadcast_def)

section \<open>Sockets are in the rooms they are members of, and in their own\<close>

lemma leaveExisting_inRoom:
  "inRoom (snd (leaveExisting sid st)) r t \<longleftrightarrow>
     (if t = sid then r = sid \<and> inRoom st sid sid else inRoom st r t)"
  by (auto simp: inRoom_iff leaveExisting_socketRooms)

lemma hul_joined:
  assumes "joined_are_members st"
  shows "joined_are_members (snd (handleUserLeaving sid v st))"
proof (cases v)
  case (JStr r)
  show ?thesis
    unfolding joined_are_members_def
  proof (intro allI impI)
    fix r' t
    assume a: "inRoom (snd (handleUserLeaving sid v st)) r' t \<and> r' \<noteq> t"
    show "memberOf (snd (handleUserLeaving sid v st)) r' t \<noteq> None"
    proof (cases "t = sid")
      case False
      with a have "inRoom st r' t" by (simp add: inRoom_iff hul_socketRooms_other)
      with a assms have "memberOf st r' t \<noteq> None" by (simp add: joined_are_members_def)
      with False show ?thesis by (simp add: JStr hul_member)
    next
      case True
      show ?thesis
      proof (cases "memberOf st r sid")
        case None
        with a assms True show ?thesis
          by (simp add: JStr hul_not_member joined_are_members_def)
      next
        case (Some u)
        with a True have "r' \<noteq> r" "inRoom st r' sid"
          by (auto simp: JStr inRoom_iff hul_socketRooms_self)
        with a assms True show ?thesis
          by (simp add: JStr hul_member joined_are_members_def)
      qed
    qed
  qed
qed (use assms in \<open>simp_all add: handleUserLeaving_def\<close>)

lemma join_room_joined:
  assumes "joined_are_members st"
  shows "joined_are_members (snd (join_room clk sid v un ui st))"
proof (cases "isValidRoomId v")
  case False
  with assms show ?thesis by (simp add: join_room_def)
next
  case True
  then obtain r where v: "v = JStr r" by (cases v) simp_all
  obtain out1 st1 where le: "leaveExisting sid st = (out1, st1)" by (cases "leaveExisting sid st")
  then have st1: "st1 = snd (leaveExisting sid st)" by simp
  have j1: "memberOf st1 r' t \<noteq> None" if "inRoom st1 r' t" "r' \<noteq> t" for r' t
  proof -
    from that have "t \<noteq> sid" "inRoom st r' t"
      by (auto simp: st1 leaveExisting_inRoom split: if_splits)
    with that assms show ?thesis
      by (simp add: st1 leaveExisting_member joined_are_members_def)
  qed
  let ?u = "newMember clk sid un ui (memberCount st1 r)"
  have "joined_are_members (admit clk sid r ?u st1)"
    unfolding joined_are_members_def
    using j1 by (auto simp: admit_inRoom admit_member split: if_splits)
  then show ?thesis
    using True v le by (simp add: join_room_valid)
qed

lemma disconnect_joined:
  assumes "joined_are_members st"
  shows "joined_are_members (snd (disconnect sid (st\<lparr>socketRooms := (socketRooms st)(sid := None)\<rparr>)))"
proof -
  let ?st0 = "st\<lparr>socketRooms := (socketRooms st)(sid := None)\<rparr>"
  have s: "socketRooms (snd (disconnect sid ?st0)) = (socketRooms st)(sid := None)"
    by (simp add: disconnect_socketRooms)
  show ?thesis
    unfolding joined_are_members_def
  proof (intro allI impI)
    fix r' t
    assume "inRoom (snd (disconnect sid ?st0)) r' t \<and> r' \<noteq> t"
    then have "t \<noteq> sid" "inRoom st r' t" "r' \<noteq> t"
      by (auto simp: inRoom_iff s split: if_splits)
    with assms show "memberOf (snd (disconnect sid ?st0)) r' t \<noteq> None"
      by (simp add: disconnect_member joined_are_members_def)
  qed
qed

lemma on_event_joined:
  assumes "joined_are_members st" and "on_event clk sid ev st = Some (out, st')"
  shows "joined_are_members st'"
proof (cases ev)
  case (JoinRoom p)
  with assms show ?thesis
    using join_room_joined [of st clk sid "field ''roomId'' p" "field ''username'' p" "field ''userId'' p"]
    by (auto split: if_splits)
next
  case (LeaveRoom p)
  with assms show ?thesis
    using hul_joined [of st sid "field ''roomId'' p"]
    by (auto simp: leave_room_def split: if_splits)
next
  case (Disconnect reason)
  with assms show ?thesis
    using disconnect_joined [of st sid] by auto
qed (use assms in \<open>auto simp: yjs_update_def awareness_update_def cursor_update_def typing_def
       request_sync_def send_sync_def split: if_splits option.splits\<close>)

lemma connect_joined:
  assumes "joined_are_members st" and "socketRooms st sid = None"
  shows "joined_are_members (connect sid st)"
proof -
  have "memberOf (connect sid st) = memberOf st"
    by (simp add: connect_def)
  moreover have "inRoom st r s" if "inRoom (connect sid st) r s" "r \<noteq> s" for r s
    using that by (auto simp: inRoom_iff connect_def split: if_splits)
  ultimately show ?thesis
    using assms(1) by (auto simp: joined_are_members_def)
qed

lemma reachable_joined: "reachable st \<Longrightarrow> joined_are_members st"
proof (induction rule: reachable.induct)
  case reach_init
  show ?case by (simp add: joined_are_members_def inRoom_iff init_def)
next
  case (reach_connect st sid)
  then show ?case by (simp add: connect_joined)
next
  case (reach_event st sid clk ev out st')
  then show ?case by (auto intro: on_event_joined)
next
  case (reach_sweep st)
  then have "registry_ok st" using reachable_consistent by (simp add: consistent_def)
  with reach_sweep show ?case by (simp add: cleanupEmptyRooms_id)
qed

text \<open>
  In a reachable state a member of room \<open>r\<close> is reached by what socket \<open>sid\<close> sends to
  the others of \<open>r\<close>, unless it is a member of the room named \<open>sid\<close> as well.
\<close>

lemma member_reached:
  assumes "consistent st" and "joined_are_members st"
    and "memberOf st r t \<noteq> None" and "memberOf st sid t = None" and "t \<noteq> sid"
  shows "reaches st (ToOthers sid (JStr r)) t"
proof -
  from assms(1,3) have "inRoom st r t" by (simp add: consistent_def members_in_rooms_def)
  moreover have "\<not> inRoom st sid t"
  proof
    assume "inRoom st sid t"
    with assms(2,5) have "memberOf st sid t \<noteq> None"
      unfolding joined_are_members_def by blast
    with assms(4) show False by simp
  qed
  ultimately show ?thesis unfolding reaches_ToOthers by simp
qed

section \<open>The example runs\<close>

lemmas run_simps =
  join_room_def leaveExisting_def leaveOne_def handleUserLeaving_def leave_room_def send_sync_def
  socket_rooms_def socket_join_def socket_leave_def connect_def init_def forEach.simps(2)
  ascii_def roomIdPattern_def roomIdChar_def getUserColor_def USER_COLORS_def
  roomUsers_js_def getRoomUsers_def userData_js_def errorMessage_def Let_def
  trim_def stripAngles_def isWhiteSpace_def memberOf_def memberRooms_def memberCount_def inRoom_def
  clock0_def sockA_def sockB_def sockC_def room1_def

lemma twoSockets_eval:
  "twoSockets = \<lparr>rooms = [], roomMetadata = [], socketRooms = [sockA \<mapsto> [sockA], sockB \<mapsto> [sockB]]\<rparr>"
  by (simp add: twoSockets_def connect_def init_def)

lemma oneInRoom_eval:
  "oneInRoom =
     \<lparr>rooms = [(room1, [(sockA, \<lparr>id_sock = sockA, username = ascii ''ann'', userId = JStr sockA,
                                  color = ascii ''#FF6B6B'', joinedAt = isoJoined clock0\<rparr>)])],
      roomMetadata = [(room1, \<lparr>createdAt = isoCreated clock0, createdBy = sockA\<rparr>)],
      socketRooms = [sockA \<mapsto> [sockA, room1], sockB \<mapsto> [sockB]]\<rparr>"
  by (simp add: oneInRoom_def twoSockets_eval) (auto simp: run_simps fun_eq_iff)

lemma twoInRoom_eval:
  "twoInRoom =
     \<lparr>rooms = [(room1, [(sockA, \<lparr>id_sock = sockA, username = ascii ''ann'', userId = JStr sockA,
                                  color = ascii ''#FF6B6B'', joinedAt = isoJoined clock0\<rparr>),
                        (sockB, \<lparr>id_sock = sockB, username = ascii ''bob'', userId = JStr sockB,
                                  color = ascii ''#4ECDC4'', joinedAt = isoJoined clock0\<rparr>)])],
      roomMetadata = [(room1, \<lparr>createdAt = isoCreated clock0, createdBy = sockA\<rparr>)],
      socketRooms = [sockA \<mapsto> [sockA, room1], sockB \<mapsto> [sockB, room1]]\<rparr>"
  by (simp add: twoInRoom_def oneInRoom_eval) (auto simp: run_simps fun_eq_iff)

lemma afterDeparture_eval:
  "afterDeparture =
     \<lparr>rooms = [(room1, [(sockB, \<lparr>id_sock = sockB, username = ascii ''bob'', userId = JStr sockB,
                                  color = ascii ''#4ECDC4'', joinedAt = isoJoined clock0\<rparr>),
                        (sockC, \<lparr>id_sock = sockC, username = ascii ''cat'', userId = JStr sockC,
                                  color = ascii ''#4ECDC4'', joinedAt = isoJoined clock0\<rparr>)])],
      roomMetadata = [(room1, \<lparr>createdAt = isoCreated clock0, createdBy = sockA\<rparr>)],
      socketRooms = [sockA \<mapsto> [sockA], sockB \<mapsto> [sockB, room1], sockC \<mapsto> [sockC, room1]]\<rparr>"
  by (simp add: afterDeparture_def twoInRoom_eval) (auto simp: run_simps fun_eq_iff)

text \<open>The handlers of a connected socket lead from reachable states to reachable states.\<close>

lemma join_room_connected:
  "socketRooms (snd (join_room clk sid v un ui st)) t = None \<longleftrightarrow> socketRooms st t = None"
proof (cases "isValidRoomId v")
  case False
  then show ?thesis by (simp add: join_room_def)
next
  case True
  then obtain r where v: "v = JStr r" by (cases v) simp_all
  obtain out1 st1 where le: "leaveExisting sid st = (out1, st1)" by (cases "leaveExisting sid st")
  then have "\<And>t. socketRooms st1 t = None \<longleftrightarrow> socketRooms st t = None"
    using leaveExisting_socketRooms [of sid st] by auto
  then show ?thesis
    using True v le by (simp add: join_room_valid admit_socketRooms)
qed

lemma reachable_join:
  assumes "reachable st" and "socketRooms st sid \<noteq> None"
  shows "reachable (snd (join_room clk sid v un ui st))"
proof -
  let ?p = "JObj [(''roomId'', v), (''username'', un), (''userId'', ui)]"
  have "on_event clk sid (JoinRoom ?p) st =
          Some (fst (join_room clk sid v un ui st), snd (join_room clk sid v un ui st))"
    by (simp add: destructurable_def)
  with assms show ?thesis by (rule reach_event)
qed

lemma reachable_leave:
  assumes "reachable st" and "socketRooms st sid \<noteq> None"
  shows "reachable (snd (leave_room sid v st))"
proof -
  have "on_event clk sid (LeaveRoom (JObj [(''roomId'', v)])) st =
          Some (fst (leave_room sid v st), snd (leave_room sid v st))"
    by (simp add: destructurable_def)
  with assms show ?thesis by (rule reach_event)
qed

lemma reachable_twoSockets: "reachable twoSockets"
  unfolding twoSockets_def
  by (intro reach_connect reach_init) (simp_all add: connect_def init_def sockA_def sockB_def ascii_def)

lemma reachable_oneInRoom: "reachable oneInRoom"
  unfolding oneInRoom_def
  by (rule reachable_join [OF reachable_twoSockets]) (simp add: twoSockets_eval)

lemma reachable_twoInRoom: "reachable twoInRoom"
  unfolding twoInRoom_def
  by (rule reachable_join [OF reachable_oneInRoom]) (simp add: oneInRoom_eval)

section \<open>Validation\<close>

text \<open>
  C10: \<open>isValidRoomId\<close> has no failing branch, and an input that is not a string (null,
  undefined, a boolean, a number, an array, an object) is never valid: only strings are.
\<close>

theorem isValidRoomId_strings_only:
  "(\<forall>s. v \<noteq> JStr s) \<Longrightarrow> isValidRoomId v = False"
  by (cases v) simp_all

text \<open>C10, witness: a number, \<open>null\<close> and an object are not valid room ids.\<close>

theorem isValidRoomId_strings_only_witness:
  "(\<forall>s. JNum 42 \<noteq> JStr s) \<and> isValidRoomId (JNum 42) = False
   \<and> (\<forall>s. JNull \<noteq> JStr s) \<and> isValidRoomId JNull = False
   \<and> (\<forall>s. JObj [(''roomId'', JStr (ascii ''r1''))] \<noteq> JStr s)
   \<and> isValidRoomId (JObj [(''roomId'', JStr (ascii ''r1''))]) = False"
  using isValidRoomId_strings_only [of "JNum 42"] isValidRoomId_strings_only [of JNull]
    isValidRoomId_strings_only [of "JObj [(''roomId'', JStr (ascii ''r1''))]"]
  by simp

text \<open>
  C3: a \<open>join-room\<close> whose room id is not a string, is empty, has 100 code units or more,
  or has a character outside \<open>[a-zA-Z0-9-_]\<close> emits one \<open>error\<close> event with the message
  \<open>Invalid room ID\<close>, addressed to the sender's socket and reaching no other socket, and
  returns the state (registry, metadata and socket.io rooms) as it was.
\<close>

theorem join_room_invalid:
  assumes "(\<forall>s. roomIdV \<noteq> JStr s)
           \<or> (\<exists>s. roomIdV = JStr s \<and> (s = [] \<or> 100 \<le> length s \<or> (\<exists>c \<in> set s. \<not> roomIdChar c)))"
  shows "join_room clk sid roomIdV usernameV userIdV st =
           ([Emit (ToSocket sid) ''error'' (JObj [(''message'', JStr (ascii ''Invalid room ID''))])], st)
         \<and> (\<forall>t. reaches st (ToSocket sid) t \<longrightarrow> t = sid)"
proof -
  have "\<not> isValidRoomId roomIdV"
    using assms by (cases roomIdV) (auto simp: roomIdPattern_def list_all_iff)
  then show ?thesis
    by (simp add: join_room_def errorMessage_def)
qed

text \<open>
  C3, witness: A, the member of \<open>r1\<close>, asks to join \<open>bad room!\<close>; the state stays as it is.
\<close>

theorem join_room_invalid_witness:
  "(\<exists>c \<in> set (ascii ''bad room!''). \<not> roomIdChar c)
   \<and> join_room clock0 sockA (JStr (ascii ''bad room!'')) (JStr (ascii ''ann'')) JUndefined oneInRoom =
       ([Emit (ToSocket sockA) ''error'' (JObj [(''message'', JStr (ascii ''Invalid room ID''))])],
        oneInRoom)"
proof -
  have bad: "\<exists>c \<in> set (ascii ''bad room!''). \<not> roomIdChar c"
    by (simp add: ascii_def roomIdChar_def)
  then have "(\<forall>s. JStr (ascii ''bad room!'') \<noteq> JStr s)
     \<or> (\<exists>s. JStr (ascii ''bad room!'') = JStr s
            \<and> (s = [] \<or> 100 \<le> length s \<or> (\<exists>c \<in> set s. \<not> roomIdChar c)))"
    by blast
  from join_room_invalid [OF this] bad show ?thesis
    by blast
qed

section \<open>Leaving and relaying\<close>

text \<open>
  C9: a \<open>leave-room\<close> naming a room that is not in the registry, or a room the sender is
  not a member of, changes nothing (registry, metadata and socket.io rooms stay as they
  were) and emits nothing, so neither \<open>user-left\<close> nor \<open>room-users\<close>.
\<close>

theorem leave_room_not_member:
  assumes "rooms_get st roomIdV = None
           \<or> (\<exists>room. rooms_get st roomIdV = Some room \<and> map_of room sid = None)"
  shows "leave_room sid roomIdV st = ([], st)"
  using assms
  by (cases roomIdV) (auto simp: leave_room_def handleUserLeaving_def rooms_get_def)

text \<open>
  C9, witness: in the state where only A is in \<open>r1\<close>, B leaves \<open>r1\<close>, and B leaves a room
  \<open>nowhere\<close> that does not exist.
\<close>

theorem leave_room_not_member_witness:
  "(\<exists>room. rooms_get oneInRoom (JStr room1) = Some room \<and> map_of room sockB = None)
   \<and> leave_room sockB (JStr room1) oneInRoom = ([], oneInRoom)
   \<and> rooms_get oneInRoom (JStr (ascii ''nowhere'')) = None
   \<and> leave_room sockB (JStr (ascii ''nowhere'')) oneInRoom = ([], oneInRoom)"
proof -
  have 1: "\<exists>room. rooms_get oneInRoom (JStr room1) = Some room \<and> map_of room sockB = None"
    by (simp add: rooms_get_def oneInRoom_eval) (simp add: sockA_def sockB_def ascii_def)
  have 2: "rooms_get oneInRoom (JStr (ascii ''nowhere'')) = None"
    by (simp add: rooms_get_def oneInRoom_eval) (simp add: room1_def ascii_def)
  from 1 2 leave_room_not_member [of oneInRoom "JStr room1" sockB]
    leave_room_not_member [of oneInRoom "JStr (ascii ''nowhere'')" sockB]
  show ?thesis by blast
qed

text \<open>What \<open>send-sync\<close> emits, whatever \<open>to\<close> is: one event, and the state as it was.\<close>

lemma send_sync_emits:
  "send_sync sid to roomIdV state st =
     ([Emit (ToRoom to) ''receive-sync''
         (JObj [(''from'', JStr sid), (''roomId'', roomIdV), (''state'', state)])], st)"
  by (simp add: send_sync_def)

text \<open>
  C8 fails on the code: the comment of the handler says \<open>Send sync data to a specific
  peer\<close>, but \<open>io.to(to)\<close> addresses the socket.io room named \<open>to\<close>, and the rooms of the
  sockets and the collaboration rooms share their names. In the state where A and B are
  in \<open>r1\<close>, a \<open>send-sync\<close> with \<open>to = r1\<close> names no connection, and yet it is delivered to
  B; and with the empty array as \<open>to\<close>, which names nothing, it is delivered to every
  connected socket.
\<close>

theorem send_sync_reaches_room:
  "socketRooms twoInRoom room1 = None
   \<and> send_sync sockA (JStr room1) (JStr room1) (JStr (ascii ''S'')) twoInRoom =
       ([Emit (ToRoom (JStr room1)) ''receive-sync''
           (JObj [(''from'', JStr sockA), (''roomId'', JStr room1), (''state'', JStr (ascii ''S''))])],
        twoInRoom)
   \<and> reaches twoInRoom (ToRoom (JStr room1)) sockB
   \<and> send_sync sockA (JArr []) (JStr room1) (JStr (ascii ''S'')) twoInRoom =
       ([Emit (ToRoom (JArr [])) ''receive-sync''
           (JObj [(''from'', JStr sockA), (''roomId'', JStr room1), (''state'', JStr (ascii ''S''))])],
        twoInRoom)
   \<and> reaches twoInRoom (ToRoom (JArr [])) sockB"
  by (simp add: send_sync_def twoInRoom_eval broadcast_def inRoom_def socket_rooms_def)
     (simp add: sockA_def sockB_def room1_def ascii_def)

section \<open>The events of a join\<close>

text \<open>
  A join with a valid room id \<open>r\<close> by a connected socket first runs the implicit leave of
  the rooms joined before, with whatever that emits; after the new member is stored the
  handler emits exactly four events, computed on the final state \<open>st'\<close>, in this order:
  \<open>room-users\<close> with the full list to the joiner's socket only; \<open>user-joined\<close> with the
  new member to the sockets of room \<open>r\<close> that are not in the room named by the joiner's
  id; \<open>room-users\<close> with the list to all sockets of room \<open>r\<close>, the joiner among them;
  \<open>join-success\<close> with \<open>roomId\<close>, \<open>userData\<close> and \<open>userCount\<close> to the joiner's socket only.
\<close>

lemma join_room_emits:
  assumes "isValidRoomId (JStr r)" and "socketRooms st sid \<noteq> None"
  shows "\<exists>u st'.
     join_room clk sid (JStr r) usernameV userIdV st =
       (fst (leaveExisting sid st) @
        [Emit (ToSocket sid) ''room-users'' (JArr (map userData_js (getRoomUsers (rooms st') r))),
         Emit (ToOthers sid (JStr r)) ''user-joined'' (userData_js u),
         Emit (ToRoom (JStr r)) ''room-users'' (JArr (map userData_js (getRoomUsers (rooms st') r))),
         Emit (ToSocket sid) ''join-success''
           (JObj [(''roomId'', JStr r), (''userData'', userData_js u),
                  (''userCount'', JNum (int (memberCount st' r)))])],
        st')
     \<and> memberOf st' r sid = Some u
     \<and> u \<in> set (getRoomUsers (rooms st') r)
     \<and> (\<forall>t. reaches st' (ToSocket sid) t \<longleftrightarrow> t = sid)
     \<and> (\<forall>t. reaches st' (ToOthers sid (JStr r)) t \<longleftrightarrow> inRoom st' r t \<and> \<not> inRoom st' sid t)
     \<and> (\<forall>t. reaches st' (ToRoom (JStr r)) t \<longleftrightarrow> inRoom st' r t)
     \<and> inRoom st' r sid"
proof -
  obtain out1 st1 where le: "leaveExisting sid st = (out1, st1)" by (cases "leaveExisting sid st")
  let ?u = "newMember clk sid usernameV userIdV (memberCount st1 r)"
  let ?st' = "admit clk sid r ?u st1"
  have st1: "st1 = snd (leaveExisting sid st)" using le by simp
  have conn: "socketRooms st1 sid \<noteq> None"
    using assms(2) by (simp add: st1 leaveExisting_socketRooms)
  have j: "join_room clk sid (JStr r) usernameV userIdV st = (out1 @ announce sid r ?u ?st', ?st')"
    using assms(1) le by (rule join_room_valid)
  have m: "memberOf ?st' r sid = Some ?u" by (simp add: admit_member)
  then have g: "?u \<in> set (getRoomUsers (rooms ?st') r)"
    by (auto simp: memberOf_def getRoomUsers_def split: option.splits dest!: map_of_SomeD intro: rev_image_eqI)
  have i: "inRoom ?st' r sid" using conn by (simp add: admit_inRoom)
  have c: "socketRooms ?st' sid \<noteq> None" using i by (rule inRoom_connected)
  show ?thesis
    apply (rule exI [of _ ?u], rule exI [of _ ?st'])
    using j le m g i c
    by (simp add: announce_def roomUsers_js_def reaches_ToOthers [simplified] reaches_ToRoom [simplified])
qed

lemma onlyBInA_eval:
  "onlyBInA =
     \<lparr>rooms = [(sockA, [(sockB, \<lparr>id_sock = sockB, username = ascii ''bob'', userId = JStr sockB,
                                  color = ascii ''#FF6B6B'', joinedAt = isoJoined clock0\<rparr>)])],
      roomMetadata = [(sockA, \<lparr>createdAt = isoCreated clock0, createdBy = sockB\<rparr>)],
      socketRooms = [sockA \<mapsto> [sockA], sockB \<mapsto> [sockB, sockA]]\<rparr>"
  by (simp add: onlyBInA_def twoSockets_eval) (auto simp: run_simps fun_eq_iff)

lemma bothInA_eval:
  "bothInA =
     \<lparr>rooms = [(sockA, [(sockB, \<lparr>id_sock = sockB, username = ascii ''bob'', userId = JStr sockB,
                                  color = ascii ''#FF6B6B'', joinedAt = isoJoined clock0\<rparr>),
                        (sockA, \<lparr>id_sock = sockA, username = ascii ''ann'', userId = JStr sockA,
                                  color = ascii ''#4ECDC4'', joinedAt = isoJoined clock0\<rparr>)])],
      roomMetadata = [(sockA, \<lparr>createdAt = isoCreated clock0, createdBy = sockB\<rparr>)],
      socketRooms = [sockA \<mapsto> [sockA], sockB \<mapsto> [sockB, sockA]]\<rparr>"
  by (simp add: bothInA_def onlyBInA_eval) (auto simp: run_simps fun_eq_iff)

lemma reachable_onlyBInA: "reachable onlyBInA"
  unfolding onlyBInA_def
  by (rule reachable_join [OF reachable_twoSockets]) (simp add: twoSockets_eval)

lemma reachable_bothInA: "reachable bothInA"
  unfolding bothInA_def
  by (rule reachable_join [OF reachable_onlyBInA]) (simp add: onlyBInA_eval)

text \<open>
  C7 fails on the code when the room has the name of the joiner's socket id (a socket.io
  id is a valid room id): the comment says \<open>Notify others in the room that someone
  joined\<close>, but \<open>socket.to(roomId)\<close> leaves out every socket of the room named
  \<open>socket.id\<close>, and that is the room itself. B is a member of the room \<open>sockA\<close>; A joins
  it: the four events go out in their order, and \<open>user-joined\<close> does not reach B, the
  other connection in the room.
\<close>

theorem user_joined_skips_room_of_joiner_id:
  "isValidRoomId (JStr sockA)
   \<and> memberOf onlyBInA sockA sockB \<noteq> None
   \<and> map addressed (fst (join_room clock0 sockA (JStr sockA) (JStr (ascii ''ann'')) JUndefined onlyBInA)) =
       [(ToSocket sockA, ''room-users''), (ToOthers sockA (JStr sockA), ''user-joined''),
        (ToRoom (JStr sockA), ''room-users''), (ToSocket sockA, ''join-success'')]
   \<and> snd (join_room clock0 sockA (JStr sockA) (JStr (ascii ''ann'')) JUndefined onlyBInA) = bothInA
   \<and> memberOf bothInA sockA sockB \<noteq> None \<and> inRoom bothInA sockA sockB \<and> sockB \<noteq> sockA
   \<and> \<not> reaches bothInA (ToOthers sockA (JStr sockA)) sockB"
proof -
  have v: "isValidRoomId (JStr sockA)"
    by (simp add: sockA_def ascii_def roomIdPattern_def roomIdChar_def)
  have ne: "sockB \<noteq> sockA" by (simp add: sockA_def sockB_def ascii_def)
  have m0: "memberOf onlyBInA sockA sockB \<noteq> None"
    by (simp add: memberOf_def onlyBInA_eval)
  have e: "map addressed (fst (join_room clock0 sockA (JStr sockA) (JStr (ascii ''ann'')) JUndefined onlyBInA)) =
       [(ToSocket sockA, ''room-users''), (ToOthers sockA (JStr sockA), ''user-joined''),
        (ToRoom (JStr sockA), ''room-users''), (ToSocket sockA, ''join-success'')]"
    by (simp add: onlyBInA_eval) (simp add: run_simps)
  have m: "memberOf bothInA sockA sockB \<noteq> None"
    by (simp add: memberOf_def bothInA_eval)
  have i: "inRoom bothInA sockA sockB"
    using ne by (simp add: inRoom_def socket_rooms_def bothInA_eval)
  then have r: "\<not> reaches bothInA (ToOthers sockA (JStr sockA)) sockB"
    by (simp add: broadcast_def)
  from v ne m0 e m i r show ?thesis by (simp add: bothInA_def)
qed

section \<open>The event of a departure\<close>

text \<open>
  C4, as the claim states it, fails, in two ways. The payload of \<open>user-left\<close> has no field
  named \<open>connectionId\<close>: the id of the leaving connection is in the field \<open>userId\<close>; here
  B leaves \<open>r1\<close>, where A stays. And \<open>socket.to(roomId)\<close> leaves out every socket of the
  room named by the leaver's id: when A leaves the room \<open>sockA\<close>, where B stays, the event
  does not reach B, neither in the state before the handler nor in the one after it.
\<close>

theorem user_left_field_counterexample:
  "hd (fst (leave_room sockB (JStr room1) twoInRoom)) =
     Emit (ToOthers sockB (JStr room1)) ''user-left''
       (JObj [(''userId'', JStr sockB), (''username'', JStr (ascii ''bob''))])
   \<and> field ''connectionId'' (JObj [(''userId'', JStr sockB), (''username'', JStr (ascii ''bob''))])
       = JUndefined
   \<and> field ''userId'' (JObj [(''userId'', JStr sockB), (''username'', JStr (ascii ''bob''))])
       = JStr sockB
   \<and> hd (fst (leave_room sockA (JStr sockA) bothInA)) =
       Emit (ToOthers sockA (JStr sockA)) ''user-left''
         (JObj [(''userId'', JStr sockA), (''username'', JStr (ascii ''ann''))])
   \<and> memberOf (snd (leave_room sockA (JStr sockA) bothInA)) sockA sockB \<noteq> None
   \<and> \<not> reaches bothInA (ToOthers sockA (JStr sockA)) sockB
   \<and> \<not> reaches (snd (leave_room sockA (JStr sockA) bothInA)) (ToOthers sockA (JStr sockA)) sockB"
proof -
  have 1: "hd (fst (leave_room sockB (JStr room1) twoInRoom)) =
     Emit (ToOthers sockB (JStr room1)) ''user-left''
       (JObj [(''userId'', JStr sockB), (''username'', JStr (ascii ''bob''))])"
    by (simp add: leave_room_def handleUserLeaving_def twoInRoom_eval Let_def)
       (simp add: sockA_def sockB_def ascii_def)
  have 2: "hd (fst (leave_room sockA (JStr sockA) bothInA)) =
       Emit (ToOthers sockA (JStr sockA)) ''user-left''
         (JObj [(''userId'', JStr sockA), (''username'', JStr (ascii ''ann''))])"
    by (simp add: leave_room_def handleUserLeaving_def bothInA_eval Let_def)
       (simp add: sockA_def sockB_def ascii_def)
  have st': "snd (leave_room sockA (JStr sockA) bothInA) =
     \<lparr>rooms = [(sockA, [(sockB, \<lparr>id_sock = sockB, username = ascii ''bob'', userId = JStr sockB,
                                  color = ascii ''#FF6B6B'', joinedAt = isoJoined clock0\<rparr>)])],
      roomMetadata = [(sockA, \<lparr>createdAt = isoCreated clock0, createdBy = sockB\<rparr>)],
      socketRooms = [sockA \<mapsto> [], sockB \<mapsto> [sockB, sockA]]\<rparr>"
    by (simp add: bothInA_eval) (auto simp: run_simps fun_eq_iff)
  have ne: "sockB \<noteq> sockA" by (simp add: sockA_def sockB_def ascii_def)
  have 3: "memberOf (snd (leave_room sockA (JStr sockA) bothInA)) sockA sockB \<noteq> None"
    by (simp add: st' memberOf_def)
  have 4: "\<not> reaches bothInA (ToOthers sockA (JStr sockA)) sockB"
    using ne by (simp add: broadcast_def inRoom_def socket_rooms_def bothInA_eval)
  have 5: "\<not> reaches (snd (leave_room sockA (JStr sockA) bothInA)) (ToOthers sockA (JStr sockA)) sockB"
    using ne by (simp add: st' broadcast_def inRoom_def socket_rooms_def)
  from 1 2 3 4 5 show ?thesis by simp
qed

text \<open>
  C4, amended: whenever a member leaves a room while present in it, by \<open>leave-room\<close> or by
  disconnecting, the server emits a \<open>user-left\<close> event whose payload has the field
  \<open>userId\<close> with the id of the leaving connection and the field \<open>username\<close> with the
  member's username, addressed to the others of the socket.io room of that name; every
  member that remains in the room and is not a member of the room named by the id of
  the leaving connection receives it, in the state before the handler as in the one
  after it.
\<close>

theorem user_left_emitted:
  assumes "reachable st" and "memberOf st r sid = Some u"
  shows "(\<exists>rest st'. leave_room sid (JStr r) st =
            (Emit (ToOthers sid (JStr r)) ''user-left''
               (JObj [(''userId'', JStr sid), (''username'', JStr (username u))]) # rest, st')
          \<and> (\<forall>t. memberOf st' r t \<noteq> None \<and> memberOf st' sid t = None
                \<longrightarrow> reaches st (ToOthers sid (JStr r)) t \<and> reaches st' (ToOthers sid (JStr r)) t))
       \<and> (\<exists>out st'. on_event clk sid (Disconnect reason) st = Some (out, st')
          \<and> Emit (ToOthers sid (JStr r)) ''user-left''
               (JObj [(''userId'', JStr sid), (''username'', JStr (username u))]) \<in> set out
          \<and> (\<forall>t. memberOf st' r t \<noteq> None \<and> memberOf st' sid t = None
                \<longrightarrow> reaches st (ToOthers sid (JStr r)) t \<and> reaches st' (ToOthers sid (JStr r)) t))"
proof (intro conjI)
  have c: "consistent st" using assms(1) by (rule reachable_consistent)
  with assms(2) have "inRoom st r sid" by (simp add: consistent_def members_in_rooms_def)
  then have conn: "socketRooms st sid \<noteq> None" by (rule inRoom_connected)
  let ?e = "Emit (ToOthers sid (JStr r)) ''user-left''
               (JObj [(''userId'', JStr sid), (''username'', JStr (username u))])"
  obtain rest where rest: "fst (leave_room sid (JStr r) st) = ?e # rest"
    using hul_out [OF assms(2)] by (auto simp: leave_room_def)
  let ?st' = "snd (leave_room sid (JStr r) st)"
  have r': "reachable ?st'" using assms(1) conn by (rule reachable_leave)
  have gone: "memberOf ?st' r sid = None" by (simp add: leave_room_def hul_member)
  have "reaches st (ToOthers sid (JStr r)) t \<and> reaches ?st' (ToOthers sid (JStr r)) t"
    if "memberOf ?st' r t \<noteq> None \<and> memberOf ?st' sid t = None" for t
  proof -
    from that gone have ne: "t \<noteq> sid" by auto
    with that have "memberOf st r t \<noteq> None \<and> memberOf st sid t = None"
      by (simp add: leave_room_def hul_member)
    with ne that show ?thesis
      using member_reached [OF reachable_consistent [OF r'] reachable_joined [OF r'], of r t sid]
        member_reached [OF c reachable_joined [OF assms(1)], of r t sid]
      by simp
  qed
  with rest show "\<exists>rest st'. leave_room sid (JStr r) st = (?e # rest, st')
          \<and> (\<forall>t. memberOf st' r t \<noteq> None \<and> memberOf st' sid t = None
                \<longrightarrow> reaches st (ToOthers sid (JStr r)) t \<and> reaches st' (ToOthers sid (JStr r)) t)"
    by (metis prod.collapse)
  let ?st0 = "st\<lparr>socketRooms := (socketRooms st)(sid := None)\<rparr>"
  let ?d = "disconnect sid ?st0"
  have ev: "on_event clk sid (Disconnect reason) st = Some (fst ?d, snd ?d)" by simp
  have rd: "reachable (snd ?d)" using assms(1) conn ev by (rule reach_event)
  have "registry_ok ?st0" using c by (simp add: consistent_def registry_ok_def)
  then have e: "?e \<in> set (fst ?d)" using assms(2) by (intro disconnect_out_mem) simp_all
  have goned: "memberOf (snd ?d) r sid = None" by (simp add: disconnect_member)
  have "reaches st (ToOthers sid (JStr r)) t \<and> reaches (snd ?d) (ToOthers sid (JStr r)) t"
    if "memberOf (snd ?d) r t \<noteq> None \<and> memberOf (snd ?d) sid t = None" for t
  proof -
    from that goned have ne: "t \<noteq> sid" by auto
    with that have "memberOf st r t \<noteq> None \<and> memberOf st sid t = None"
      by (simp add: disconnect_member)
    with ne that show ?thesis
      using member_reached [OF reachable_consistent [OF rd] reachable_joined [OF rd], of r t sid]
        member_reached [OF c reachable_joined [OF assms(1)], of r t sid]
      by simp
  qed
  with e show "\<exists>out st'. on_event clk sid (Disconnect reason) st = Some (out, st')
          \<and> ?e \<in> set out
          \<and> (\<forall>t. memberOf st' r t \<noteq> None \<and> memberOf st' sid t = None
                \<longrightarrow> reaches st (ToOthers sid (JStr r)) t \<and> reaches st' (ToOthers sid (JStr r)) t)"
    by (intro exI [of _ "fst ?d"] exI [of _ "snd ?d"]) simp
qed

text \<open>
  C4, witness: B, a member of \<open>r1\<close> under the name \<open>bob\<close>, leaves it, and A, who stays and
  is in no room named \<open>sockB\<close>, receives the event; and B disconnects.
\<close>

theorem user_left_emitted_witness:
  "reachable twoInRoom
   \<and> map_option username (memberOf twoInRoom room1 sockB) = Some (ascii ''bob'')
   \<and> (\<exists>rest st'. leave_room sockB (JStr room1) twoInRoom =
         (Emit (ToOthers sockB (JStr room1)) ''user-left''
            (JObj [(''userId'', JStr sockB), (''username'', JStr (ascii ''bob''))]) # rest, st')
       \<and> (\<forall>t. memberOf st' room1 t \<noteq> None \<and> memberOf st' sockB t = None
             \<longrightarrow> reaches twoInRoom (ToOthers sockB (JStr room1)) t
                 \<and> reaches st' (ToOthers sockB (JStr room1)) t))
   \<and> memberOf (snd (leave_room sockB (JStr room1) twoInRoom)) room1 sockA \<noteq> None
   \<and> memberOf (snd (leave_room sockB (JStr room1) twoInRoom)) sockB sockA = None
   \<and> reaches (snd (leave_room sockB (JStr room1) twoInRoom)) (ToOthers sockB (JStr room1)) sockA
   \<and> (\<exists>out st'. on_event clock0 sockB (Disconnect (JStr (ascii ''transport close''))) twoInRoom
           = Some (out, st')
       \<and> Emit (ToOthers sockB (JStr room1)) ''user-left''
            (JObj [(''userId'', JStr sockB), (''username'', JStr (ascii ''bob''))]) \<in> set out)"
proof -
  let ?u = "\<lparr>id_sock = sockB, username = ascii ''bob'', userId = JStr sockB,
             color = ascii ''#4ECDC4'', joinedAt = isoJoined clock0\<rparr>"
  let ?st' = "snd (leave_room sockB (JStr room1) twoInRoom)"
  have m: "memberOf twoInRoom room1 sockB = Some ?u"
    by (simp add: memberOf_def twoInRoom_eval) (simp add: sockA_def sockB_def ascii_def)
  have ne: "sockA \<noteq> sockB" by (simp add: sockA_def sockB_def ascii_def)
  have a: "memberOf ?st' room1 sockA \<noteq> None"
    using ne by (simp add: leave_room_def hul_member) (simp add: memberOf_def twoInRoom_eval)
  have b: "memberOf ?st' sockB sockA = None"
    using ne by (simp add: leave_room_def hul_member)
      (simp add: memberOf_def twoInRoom_eval room1_def sockB_def ascii_def)
  note t = user_left_emitted [OF reachable_twoInRoom m, of clock0 "JStr (ascii ''transport close'')"]
  from t a b have r: "reaches ?st' (ToOthers sockB (JStr room1)) sockA"
    by (metis prod.collapse prod.inject)
  from t reachable_twoInRoom m a b r show ?thesis by simp blast
qed

section \<open>Rooms exist while they have members\<close>

text \<open>
  C2: in every state the server can be in between two handler invocations, a room id is
  in the registry (once at most) if and only if its member map has at least one member. When the last
  member of a room leaves, \<open>handleUserLeaving\<close> deletes the room and its metadata in that
  same call. A join with a valid room id that the registry does not know creates the
  room with this one member, together with metadata naming the joiner and the time.
\<close>

theorem room_present_iff_occupied:
  "(reachable st \<longrightarrow>
      distinct (map fst (rooms st))
      \<and> (\<forall>roomId. roomId \<in> fst ` set (rooms st) \<longleftrightarrow> 1 \<le> memberCount st roomId))
   \<and> (memberOf st r sid \<noteq> None \<and> memberCount st r = 1 \<longrightarrow>
        map_of (rooms (snd (handleUserLeaving sid (JStr r) st))) r = None
        \<and> map_of (roomMetadata (snd (handleUserLeaving sid (JStr r) st))) r = None)
   \<and> (isValidRoomId (JStr r) \<and> map_of (rooms st) r = None \<longrightarrow>
        (\<exists>u. map_of (rooms (snd (join_room clk sid (JStr r) usernameV userIdV st))) r = Some [(sid, u)])
        \<and> map_of (roomMetadata (snd (join_room clk sid (JStr r) usernameV userIdV st))) r
            = Some \<lparr>createdAt = isoCreated clk, createdBy = sid\<rparr>)"
proof (intro conjI impI)
  assume "reachable st"
  then have ok: "registry_ok st" using reachable_consistent by (simp add: consistent_def)
  then show "distinct (map fst (rooms st))" by (simp add: registry_ok_def)
  from ok show "\<forall>roomId. roomId \<in> fst ` set (rooms st) \<longleftrightarrow> 1 \<le> memberCount st roomId"
    by (simp add: present_iff)
next
  assume a: "memberOf st r sid \<noteq> None \<and> memberCount st r = 1"
  then show "map_of (rooms (snd (handleUserLeaving sid (JStr r) st))) r = None"
    using hul_last_member [of st r sid] by simp
  from a show "map_of (roomMetadata (snd (handleUserLeaving sid (JStr r) st))) r = None"
    using hul_last_member [of st r sid] by simp
next
  assume a: "isValidRoomId (JStr r) \<and> map_of (rooms st) r = None"
  then show "\<exists>u. map_of (rooms (snd (join_room clk sid (JStr r) usernameV userIdV st))) r = Some [(sid, u)]"
    using join_room_creates [of r st clk sid usernameV userIdV] by blast
  from a show "map_of (roomMetadata (snd (join_room clk sid (JStr r) usernameV userIdV st))) r
            = Some \<lparr>createdAt = isoCreated clk, createdBy = sid\<rparr>"
    using join_room_creates [of r st clk sid usernameV userIdV] by blast
qed

text \<open>
  C2, witness: the state with A and B in \<open>r1\<close> is reachable; A, alone in \<open>r1\<close>, leaves it;
  A joins \<open>r1\<close> when no room exists.
\<close>

theorem room_present_iff_occupied_witness:
  "reachable twoInRoom
   \<and> room1 \<in> fst ` set (rooms twoInRoom) \<and> 1 \<le> memberCount twoInRoom room1
   \<and> memberOf oneInRoom room1 sockA \<noteq> None \<and> memberCount oneInRoom room1 = 1
   \<and> map_of (rooms (snd (handleUserLeaving sockA (JStr room1) oneInRoom))) room1 = None
   \<and> map_of (roomMetadata (snd (handleUserLeaving sockA (JStr room1) oneInRoom))) room1 = None
   \<and> isValidRoomId (JStr room1) \<and> map_of (rooms twoSockets) room1 = None
   \<and> map_of (roomMetadata
        (snd (join_room clock0 sockA (JStr room1) (JStr (ascii ''ann'')) JUndefined twoSockets))) room1
       = Some \<lparr>createdAt = isoCreated clock0, createdBy = sockA\<rparr>"
proof -
  have 1: "room1 \<in> fst ` set (rooms twoInRoom)"
    by (simp add: twoInRoom_eval)
  have 2: "memberOf oneInRoom room1 sockA \<noteq> None \<and> memberCount oneInRoom room1 = 1"
    by (simp add: memberOf_def memberCount_def oneInRoom_eval)
  have 3: "isValidRoomId (JStr room1) \<and> map_of (rooms twoSockets) room1 = None"
    by (simp add: twoSockets_eval room1_def ascii_def roomIdPattern_def roomIdChar_def)
  from room_present_iff_occupied [of twoInRoom room1 sockA clock0 "JStr (ascii ''ann'')" JUndefined]
    reachable_twoInRoom 1
  have a: "1 \<le> memberCount twoInRoom room1" by blast
  from room_present_iff_occupied [of oneInRoom room1 sockA clock0 "JStr (ascii ''ann'')" JUndefined] 2
  have b: "map_of (rooms (snd (handleUserLeaving sockA (JStr room1) oneInRoom))) room1 = None
        \<and> map_of (roomMetadata (snd (handleUserLeaving sockA (JStr room1) oneInRoom))) room1 = None"
    by blast
  from room_present_iff_occupied [of twoSockets room1 sockA clock0 "JStr (ascii ''ann'')" JUndefined] 3
  have c: "map_of (roomMetadata
        (snd (join_room clock0 sockA (JStr room1) (JStr (ascii ''ann'')) JUndefined twoSockets))) room1
       = Some \<lparr>createdAt = isoCreated clock0, createdBy = sockA\<rparr>"
    by blast
  from reachable_twoInRoom 1 2 3 a b c show ?thesis by blast
qed

section \<open>Sanitizing twice\<close>

lemma trim_last: "trim s \<noteq> [] \<Longrightarrow> \<not> isWhiteSpace (last (trim s))"
proof -
  assume ne: "trim s \<noteq> []"
  let ?d = "dropWhile isWhiteSpace (rev (dropWhile isWhiteSpace s))"
  from ne have d: "?d \<noteq> []" by (simp add: trim_def)
  then have "last (trim s) = hd ?d" by (simp add: trim_def last_rev)
  with d show ?thesis using hd_dropWhile [of isWhiteSpace "rev (dropWhile isWhiteSpace s)"] by simp
qed

text \<open>
  C5, as the claim states it, fails: the name is trimmed before it is cut to 50 code
  units, so the cut can end in a space, which the second call trims away. The input has
  49 letters, a space and a letter, and neither \<open><\<close> nor \<open>>\<close>.
\<close>

theorem sanitizeUsername_twice_counterexample:
  "0x3C \<notin> set longName \<and> 0x3E \<notin> set longName
   \<and> sanitizeUsername 1704067200000 (JStr longName)
       = ascii ''aaaaaaaaaaaaaaaaaaaaaaaaaaaaaaaaaaaaaaaaaaaaaaaaa ''
   \<and> sanitizeUsername 1704067200000 (JStr (sanitizeUsername 1704067200000 (JStr longName)))
       = ascii ''aaaaaaaaaaaaaaaaaaaaaaaaaaaaaaaaaaaaaaaaaaaaaaaaa''
   \<and> sanitizeUsername 1704067200000 (JStr (sanitizeUsername 1704067200000 (JStr longName)))
       \<noteq> sanitizeUsername 1704067200000 (JStr longName)"
  by (simp add: longName_def ascii_def trim_def stripAngles_def isWhiteSpace_def)

text \<open>
  C5, amended: for every string \<open>x\<close> whose stripped and trimmed form has at most 50 code
  units, and more generally whenever the sanitized name does not end in a white space
  character, sanitizing the sanitized name gives it back, whatever the clock reads at the
  second call. (\<open>Date.now()\<close> is at most 8.64e15, the largest time value of a Date, so
  that the guest name has fewer than 50 code units.) Whether \<open>x\<close> has \<open><\<close> or \<open>>\<close> makes no
  difference.
\<close>

theorem sanitizeUsername_idempotent:
  assumes "now \<le> 8640000000000000"
    and "length (trim (stripAngles x)) \<le> 50
         \<or> \<not> isWhiteSpace (last (sanitizeUsername now (JStr x)))"
  shows "sanitizeUsername now' (JStr (sanitizeUsername now (JStr x))) = sanitizeUsername now (JStr x)"
proof (cases "x = [] \<or> take 50 (trim (stripAngles x)) = []")
  case True
  then have g: "sanitizeUsername now (JStr x) = guestName now" by auto
  show ?thesis unfolding g by (rule sanitize_guest_fixed [OF assms(1)])
next
  case False
  let ?r = "take 50 (trim (stripAngles x))"
  from False have r: "sanitizeUsername now (JStr x) = ?r" and ne: "?r \<noteq> []" by auto
  from ne have tne: "trim (stripAngles x) \<noteq> []" by auto
  have l: "\<not> isWhiteSpace (last ?r)"
  proof (cases "length (trim (stripAngles x)) \<le> 50")
    case True
    then show ?thesis using trim_last [OF tne] by simp
  next
    case False
    with assms(2) show ?thesis unfolding r by simp
  qed
  have "sanitizeUsername now' (JStr ?r) = ?r"
  proof (rule sanitize_fixed)
    show "?r \<noteq> []" by (rule ne)
    show "\<forall>c \<in> set ?r. c \<noteq> 0x3C \<and> c \<noteq> 0x3E"
      using trim_subset [of "stripAngles x"] stripAngles_set [of _ x]
      by (meson in_set_takeD subsetD)
    show "\<not> isWhiteSpace (hd ?r)"
      using trim_hd [OF tne] ne by (simp add: hd_take)
    show "\<not> isWhiteSpace (last ?r)" by (rule l)
    show "length ?r \<le> 50" by simp
  qed
  then show ?thesis unfolding r .
qed

text \<open>
  C5, witness: a name with spaces around it and an angle bracket inside, and the empty
  name, which becomes the guest name of the first call.
\<close>

theorem sanitizeUsername_idempotent_witness:
  "(1704067200000 :: nat) \<le> 8640000000000000
   \<and> length (trim (stripAngles (ascii ''  <ann>  ''))) \<le> 50
   \<and> sanitizeUsername 1704067200000 (JStr (ascii ''  <ann>  '')) = ascii ''ann''
   \<and> sanitizeUsername 1704067260000 (JStr (sanitizeUsername 1704067200000 (JStr (ascii ''  <ann>  ''))))
       = ascii ''ann''
   \<and> length (trim (stripAngles [])) \<le> 50
   \<and> sanitizeUsername 1704067260000 (JStr (sanitizeUsername 1704067200000 (JStr [])))
       = sanitizeUsername 1704067200000 (JStr [])"
proof -
  have n: "(1704067200000 :: nat) \<le> 8640000000000000" by simp
  have 1: "length (trim (stripAngles (ascii ''  <ann>  ''))) \<le> 50"
    by (simp add: ascii_def trim_def stripAngles_def isWhiteSpace_def)
  have 2: "sanitizeUsername 1704067200000 (JStr (ascii ''  <ann>  '')) = ascii ''ann''"
    by (simp add: ascii_def trim_def stripAngles_def isWhiteSpace_def)
  have 3: "length (trim (stripAngles [])) \<le> 50"
    by (simp add: trim_def stripAngles_def)
  from sanitizeUsername_idempotent [OF n disjI1 [OF 1], of 1704067260000]
    sanitizeUsername_idempotent [OF n disjI1 [OF 3], of 1704067260000] n 1 2 3
  show ?thesis by (simp only:)
qed

section \<open>The color of a member\<close>

text \<open>
  C6, as the claim states it, fails: the color comes from the number of members at the
  moment of the join, not from the number of joins so far. A joins the new room \<open>r1\<close>, B
  joins it, A leaves, C joins: C is member number 2 of the room, counting from 0, and is
  given the color at index 1, which B has as well.
\<close>

theorem third_joiner_color_counterexample:
  "map_option color (memberOf afterDeparture room1 sockC) = Some (USER_COLORS ! 1)
   \<and> map_option color (memberOf afterDeparture room1 sockB) = Some (USER_COLORS ! 1)
   \<and> USER_COLORS ! 1 \<noteq> USER_COLORS ! (2 mod 12)"
  by (simp add: memberOf_def afterDeparture_eval USER_COLORS_def)
     (simp add: sockB_def sockC_def ascii_def)

text \<open>
  C6, amended: every successful join gives the joiner the color \<open>palette[k mod 12]\<close>,
  where \<open>k\<close> is the number of members the room has at that moment, after the joiner has
  left the rooms joined before. So when connections that have just connected join a
  room that did not exist, one after the other and with no departure in between, the
  N-th of them, counting from 0, has \<open>palette[N mod 12]\<close>. The member object, and with it
  the color, is not changed by any later event of another connection, a departure of an
  earlier member included.
\<close>

theorem color_fixed_at_join:
  "(isValidRoomId (JStr r) \<longrightarrow>
      (\<exists>u. memberOf (snd (join_room clk sid (JStr r) usernameV userIdV st)) r sid = Some u
           \<and> color u = USER_COLORS ! (memberCount (snd (leaveExisting sid st)) r mod 12)))
   \<and> (isValidRoomId (JStr r) \<and> map_of (rooms st) r = None \<and> distinct (map joiner js)
       \<and> (\<forall>j \<in> set js. socket_rooms st (joiner j) = [joiner j]) \<and> N < length js \<longrightarrow>
      (\<exists>u. memberOf (joinAll r js st) r (joiner (js ! N)) = Some u
           \<and> color u = USER_COLORS ! (N mod 12)))
   \<and> (on_event clk' t ev st = Some (out, st') \<and> s \<noteq> t \<longrightarrow> memberOf st' r s = memberOf st r s)"
proof (intro conjI impI)
  assume "isValidRoomId (JStr r)"
  then show "\<exists>u. memberOf (snd (join_room clk sid (JStr r) usernameV userIdV st)) r sid = Some u
           \<and> color u = USER_COLORS ! (memberCount (snd (leaveExisting sid st)) r mod 12)"
    by (rule join_room_color)
next
  assume "isValidRoomId (JStr r) \<and> map_of (rooms st) r = None \<and> distinct (map joiner js)
       \<and> (\<forall>j \<in> set js. socket_rooms st (joiner j) = [joiner j]) \<and> N < length js"
  then show "\<exists>u. memberOf (joinAll r js st) r (joiner (js ! N)) = Some u
           \<and> color u = USER_COLORS ! (N mod 12)"
    using joinAll_palette [of r st js N] by blast
next
  assume "on_event clk' t ev st = Some (out, st') \<and> s \<noteq> t"
  then show "memberOf st' r s = memberOf st r s"
    using on_event_member_other [of clk' t ev st out st' s r] by blast
qed

text \<open>
  C6, witness: B joins \<open>r1\<close>, where A is, and gets the color at index 1; A and then B
  join the new room \<open>r1\<close>, and B, number 1, has the color at index 1; A leaves \<open>r1\<close>, and
  the member object of B stays as it was.
\<close>

theorem color_fixed_at_join_witness:
  "isValidRoomId (JStr room1)
   \<and> memberCount (snd (leaveExisting sockB oneInRoom)) room1 = 1
   \<and> (\<exists>u. memberOf (snd (join_room clock0 sockB (JStr room1) (JStr (ascii ''bob'')) JUndefined oneInRoom))
              room1 sockB = Some u \<and> color u = USER_COLORS ! (1 mod 12))
   \<and> map_of (rooms twoSockets) room1 = None
   \<and> distinct (map joiner [(clock0, sockA, JStr (ascii ''ann''), JUndefined),
                            (clock0, sockB, JStr (ascii ''bob''), JUndefined)])
   \<and> socket_rooms twoSockets sockA = [sockA] \<and> socket_rooms twoSockets sockB = [sockB]
   \<and> (\<exists>u. memberOf (joinAll room1 [(clock0, sockA, JStr (ascii ''ann''), JUndefined),
                                   (clock0, sockB, JStr (ascii ''bob''), JUndefined)] twoSockets)
              room1 sockB = Some u \<and> color u = USER_COLORS ! (1 mod 12))
   \<and> on_event clock0 sockA (LeaveRoom (JObj [(''roomId'', JStr room1)])) twoInRoom
        = Some (leave_room sockA (JStr room1) twoInRoom)
   \<and> sockB \<noteq> sockA
   \<and> memberOf (snd (leave_room sockA (JStr room1) twoInRoom)) room1 sockB = memberOf twoInRoom room1 sockB"
proof -
  let ?js = "[(clock0, sockA, JStr (ascii ''ann''), JUndefined),
              (clock0, sockB, JStr (ascii ''bob''), JUndefined)]"
  have v: "isValidRoomId (JStr room1)"
    by (simp add: room1_def ascii_def roomIdPattern_def roomIdChar_def)
  have ne: "sockB \<noteq> sockA" by (simp add: sockA_def sockB_def ascii_def)
  have fresh: "socket_rooms oneInRoom sockB = [sockB]"
    by (simp add: oneInRoom_eval socket_rooms_def)
  then have k: "memberCount (snd (leaveExisting sockB oneInRoom)) room1 = 1"
    by (simp add: leaveExisting_fresh) (simp add: memberCount_def oneInRoom_eval)
  have e: "map_of (rooms twoSockets) room1 = None" by (simp add: twoSockets_eval)
  have d: "distinct (map joiner ?js)
       \<and> (\<forall>j \<in> set ?js. socket_rooms twoSockets (joiner j) = [joiner j]) \<and> 1 < length ?js"
    using ne by (simp add: joiner_def twoSockets_eval socket_rooms_def)
  have o: "on_event clock0 sockA (LeaveRoom (JObj [(''roomId'', JStr room1)])) twoInRoom
        = Some (fst (leave_room sockA (JStr room1) twoInRoom), snd (leave_room sockA (JStr room1) twoInRoom))"
    by (simp add: destructurable_def)
  from color_fixed_at_join [of room1 clock0 sockB "JStr (ascii ''bob'')" JUndefined oneInRoom] v k
  have a: "\<exists>u. memberOf (snd (join_room clock0 sockB (JStr room1) (JStr (ascii ''bob'')) JUndefined oneInRoom))
              room1 sockB = Some u \<and> color u = USER_COLORS ! (1 mod 12)"
    by simp
  from color_fixed_at_join [of room1 clock0 sockB "JStr (ascii ''bob'')" JUndefined twoSockets ?js 1] v e d
  have b: "\<exists>u. memberOf (joinAll room1 ?js twoSockets) room1 sockB = Some u
              \<and> color u = USER_COLORS ! (1 mod 12)"
    by (simp add: joiner_def)
  from color_fixed_at_join [of room1 clock0 sockB "JStr (ascii ''bob'')" JUndefined twoInRoom ?js 1
      clock0 sockA "LeaveRoom (JObj [(''roomId'', JStr room1)])"
      "fst (leave_room sockA (JStr room1) twoInRoom)" "snd (leave_room sockA (JStr room1) twoInRoom)" sockB]
    o ne
  have c: "memberOf (snd (leave_room sockA (JStr room1) twoInRoom)) room1 sockB = memberOf twoInRoom room1 sockB"
    by blast
  from v k a e b o ne c d show ?thesis by (simp add: joiner_def)
qed

section \<open>One room at a time\<close>

lemma memberRooms_set:
  assumes "registry_ok st"
  shows "set (memberRooms st sid) = {r. memberOf st r sid \<noteq> None}"
proof -
  from assms have d: "distinct (map fst (rooms st))" by (simp add: registry_ok_def)
  show ?thesis
  proof (intro set_eqI iffI)
    fix r assume "r \<in> set (memberRooms st sid)"
    then obtain m where "(r, m) \<in> set (rooms st)" "map_of m sid \<noteq> None"
      by (auto simp: memberRooms_def)
    with d show "r \<in> {r. memberOf st r sid \<noteq> None}"
      by (auto simp: memberOf_def)
  next
    fix r assume "r \<in> {r. memberOf st r sid \<noteq> None}"
    then obtain m where "map_of (rooms st) r = Some m" "map_of m sid \<noteq> None"
      by (auto simp: memberOf_def split: option.splits)
    then show "r \<in> set (memberRooms st sid)"
      by (force simp: memberRooms_def dest: map_of_SomeD)
  qed
qed

lemma memberRooms_distinct: "registry_ok st \<Longrightarrow> distinct (memberRooms st sid)"
  by (simp add: memberRooms_def registry_ok_def distinct_map_filter)

lemma distinct_singleton:
  assumes "distinct xs" and "set xs = {x}"
  shows "xs = [x]"
proof (cases xs)
  case Nil
  with assms(2) show ?thesis by simp
next
  case (Cons y ys)
  with assms have "y = x" "set ys \<subseteq> {x}" "x \<notin> set ys" by auto
  then have "ys = []" by (cases ys) auto
  with Cons \<open>y = x\<close> show ?thesis by simp
qed

lemma join_room_only_room:
  assumes "consistent st" and "\<forall>r'. memberOf st r' sid \<noteq> None \<longrightarrow> r' \<noteq> sid"
    and "isValidRoomId (JStr r)"
  shows "memberOf (snd (join_room clk sid (JStr r) un ui st)) r' sid \<noteq> None \<longleftrightarrow> r' = r"
proof -
  obtain out1 st1 where le: "leaveExisting sid st = (out1, st1)" by (cases "leaveExisting sid st")
  have "memberOf st1 x sid = None" for x
  proof (cases "memberOf st x sid")
    case None
    then show ?thesis using le leaveExisting_member [of sid st x sid] by simp
  next
    case (Some u)
    with assms(1,2) have "inRoom st x sid" "x \<noteq> sid"
      by (auto simp: consistent_def members_in_rooms_def)
    then show ?thesis using le leaveExisting_member [of sid st x sid] by simp
  qed
  then show ?thesis
    using assms(3) le by (simp add: join_room_valid admit_member)
qed

lemma validRoomIds_invalid:
  "\<not> isValidRoomId v \<Longrightarrow> validRoomIds ((clk, v, un, ui) # evs) = validRoomIds evs"
  by (cases v) simp_all

lemma joins_members:
  assumes "consistent st" and "socketRooms st sid \<noteq> None"
    and "\<forall>r'. memberOf st r' sid \<noteq> None \<longrightarrow> r' \<noteq> sid"
    and "sid \<notin> set (validRoomIds evs)"
  shows "consistent (joins sid evs st)
       \<and> (\<forall>r'. memberOf (joins sid evs st) r' sid \<noteq> None \<longleftrightarrow>
              (if validRoomIds evs = [] then memberOf st r' sid \<noteq> None
               else r' = last (validRoomIds evs)))"
  using assms
proof (induction evs arbitrary: st)
  case Nil
  then show ?case by simp
next
  case (Cons ev evs)
  obtain clk v un ui where ev: "ev = (clk, v, un, ui)" by (cases ev)
  show ?case
  proof (cases "isValidRoomId v")
    case False
    then have same: "snd (join_room clk sid v un ui st) = st" by (simp add: join_room_def)
    from False Cons.prems(4) have "sid \<notin> set (validRoomIds evs)"
      by (simp add: ev validRoomIds_invalid)
    from Cons.IH [OF Cons.prems(1-3) this] False show ?thesis
      by (simp add: ev same validRoomIds_invalid)
  next
    case True
    then obtain r where v: "v = JStr r" by (cases v) simp_all
    let ?st' = "snd (join_room clk sid v un ui st)"
    from True Cons.prems(4) have r: "r \<noteq> sid" and rest: "sid \<notin> set (validRoomIds evs)"
      by (auto simp: ev v)
    have only: "memberOf ?st' r' sid \<noteq> None \<longleftrightarrow> r' = r" for r'
      unfolding v using Cons.prems(1,3) True [unfolded v] by (rule join_room_only_room)
    have c: "consistent ?st'" using Cons.prems(1,2) by (rule join_room_consistent)
    have s: "socketRooms ?st' sid \<noteq> None" using Cons.prems(2) by (simp add: join_room_connected)
    have o: "\<forall>r'. memberOf ?st' r' sid \<noteq> None \<longrightarrow> r' \<noteq> sid" using only r by simp
    have vr: "validRoomIds (ev # evs) = r # validRoomIds evs" using True by (simp add: ev v)
    have js: "joins sid (ev # evs) st = joins sid evs ?st'" by (simp add: ev)
    from Cons.IH [OF c s o rest] show ?thesis
      unfolding vr js using only by auto
  qed
qed

text \<open>
  The property of C1 holds for every run of joins in which no valid room id is the id of
  the joining socket itself: a connection that was in no room ends up in exactly the
  room joined last, or in none when no join was valid.
\<close>

lemma joins_single_room:
  assumes "reachable st" and "socketRooms st sid \<noteq> None" and "\<forall>r. memberOf st r sid = None"
    and "sid \<notin> set (validRoomIds evs)"
  shows "memberRooms (joins sid evs st) sid =
           (if validRoomIds evs = [] then [] else [last (validRoomIds evs)])"
proof -
  have c: "consistent st" using assms(1) by (rule reachable_consistent)
  from assms(3) have n: "\<forall>r'. memberOf st r' sid \<noteq> None \<longrightarrow> r' \<noteq> sid" by simp
  from joins_members [OF c assms(2) n assms(4)]
  have ok: "registry_ok (joins sid evs st)"
    and m: "\<And>r'. memberOf (joins sid evs st) r' sid \<noteq> None \<longleftrightarrow>
              (if validRoomIds evs = [] then memberOf st r' sid \<noteq> None
               else r' = last (validRoomIds evs))"
    by (simp_all add: consistent_def)
  show ?thesis
  proof (cases "validRoomIds evs = []")
    case True
    with m assms(3) have "set (memberRooms (joins sid evs st) sid) = {}"
      by (simp add: memberRooms_set [OF ok])
    with True show ?thesis by simp
  next
    case False
    with m have "set (memberRooms (joins sid evs st) sid) = {last (validRoomIds evs)}"
      by (auto simp: memberRooms_set [OF ok])
    with False show ?thesis
      using distinct_singleton [OF memberRooms_distinct [OF ok]] by simp
  qed
qed

text \<open>The run of the next theorem is one the server can really make.\<close>

lemma reachable_ownIdRun: "reachable (joins sockA ownIdRun (connect sockA init))"
proof -
  have c: "reachable (connect sockA init)"
    by (intro reach_connect reach_init) (simp add: init_def)
  have s: "socketRooms (connect sockA init) sockA \<noteq> None" by (simp add: connect_def)
  let ?st1 = "snd (join_room clock0 sockA (JStr sockA) (JStr (ascii ''ann'')) JUndefined (connect sockA init))"
  have r1: "reachable ?st1" using c s by (rule reachable_join)
  have s1: "socketRooms ?st1 sockA \<noteq> None" using s by (simp add: join_room_connected)
  have "reachable (snd (join_room clock0 sockA (JStr room1) (JStr (ascii ''ann'')) JUndefined ?st1))"
    using r1 s1 by (rule reachable_join)
  then show ?thesis by (simp add: ownIdRun_def)
qed

text \<open>
  C1 fails on the code when a connection joins the room named by its own socket id (a
  socket.io id is 20 characters of \<open>[A-Za-z0-9_-]\<close>, so it is a valid room id): the loop
  that leaves the rooms joined before skips \<open>socket.id\<close>, and the connection stays a
  member of that room when it joins the next one. A joins the room \<open>sockA\<close> and then
  \<open>r1\<close>: both ids are valid, \<open>r1\<close> is the room joined last, and A is a member of both.
\<close>

theorem own_id_room_is_kept:
  "validRoomIds ownIdRun = [sockA, room1]
   \<and> memberRooms (joins sockA ownIdRun (connect sockA init)) sockA = [sockA, room1]
   \<and> memberRooms (joins sockA ownIdRun (connect sockA init)) sockA \<noteq> [last (validRoomIds ownIdRun)]"
  by (simp add: ownIdRun_def) (simp add: run_simps)

end
